theory Spec2Isabelle
  imports Main "HOL-Library.Code_Target_Nat"
begin

section \<open>Data model of the grid pathfinding visualizer (src/main.cpp)\<close>

text \<open>
  A coordinate is an \<open>sf::Vector2i\<close>: the pair (x, y).  Matrices are
  \<open>std::vector<std::vector<T>>\<close> indexed row first, \<open>m[y][x]\<close>.
\<close>

type_synonym coord = "int \<times> int"

definition at2 :: "'a list list \<Rightarrow> int \<Rightarrow> int \<Rightarrow> 'a" where
  "at2 m r c = m ! nat r ! nat c"

definition upd2 :: "'a list list \<Rightarrow> int \<Rightarrow> int \<Rightarrow> 'a \<Rightarrow> 'a list list" where
  "upd2 m r c v = m[nat r := (m ! nat r)[nat c := v]]"

definition matrix :: "int \<Rightarrow> 'a \<Rightarrow> 'a list list" where
  "matrix n v = replicate (nat n) (replicate (nat n) v)"

text \<open>
  The colours the search handlers push: \<open>sf::Color::Cyan\<close> (open / frontier),
  \<open>sf::Color(100, 100, 100)\<close> (visited), \<open>sf::Color::Green\<close> (Dijkstra path) and
  \<open>sf::Color(255, 0, 255)\<close> (A* path).
\<close>

datatype color = Cyan | Grey | Green | Magenta

record AnimationStep =
  coord :: coord
  color :: color

definition directions :: "coord list" where
  "directions = [(1, 0), (0, 1), (-1, 0), (0, -1), (1, 1), (-1, 1), (1, -1), (-1, -1)]"

text \<open>
  The program computes costs in \<open>float\<close>.  The float operations it uses are taken as
  parameters: addition, the comparison \<open><\<close> (\<open>a > b\<close> is \<open>b < a\<close>), the conversion
  from \<open>int\<close>, and the constants \<open>0.0f\<close>, \<open>std::numeric_limits<float>::max()\<close>,
  \<open>std::numeric_limits<float>::epsilon()\<close>, \<open>CARDINAL_COST\<close> and \<open>DIAGONAL_COST\<close>.
\<close>

record 'c float_ops =
  fadd :: "'c \<Rightarrow> 'c \<Rightarrow> 'c"
  fless :: "'c \<Rightarrow> 'c \<Rightarrow> bool"
  float_of_int :: "int \<Rightarrow> 'c"
  fzero :: 'c
  FLT_MAX :: 'c
  FLT_EPSILON :: 'c
  CARDINAL_COST :: 'c
  DIAGONAL_COST :: 'c

text \<open>
  The configuration of a run: the float operations, \<open>GRID_SIZE\<close>, the start and end
  positions, the choice \<open>std::priority_queue::top\<close> makes among the pending keys
  (the index, in insertion order, of the entry it returns), and the two button areas of
  the panel (their bounds come from the font's metrics).
\<close>

record 'c config = "'c float_ops" +
  GRID_SIZE :: int
  CELL_SIZE :: int
  startX :: int
  startY :: int
  endX :: int
  endY :: int
  pq_top_index :: "'c list \<Rightarrow> nat"
  in_dijkstra_button :: "int \<Rightarrow> int \<Rightarrow> bool"
  in_astar_button :: "int \<Rightarrow> int \<Rightarrow> bool"

definition is_start :: "('c, 'z) config_scheme \<Rightarrow> int \<Rightarrow> int \<Rightarrow> bool" where
  "is_start C px py \<longleftrightarrow> px = startX C \<and> py = startY C"

definition is_end :: "('c, 'z) config_scheme \<Rightarrow> int \<Rightarrow> int \<Rightarrow> bool" where
  "is_end C px py \<longleftrightarrow> px = endX C \<and> py = endY C"

definition is_anchor :: "('c, 'z) config_scheme \<Rightarrow> int \<Rightarrow> int \<Rightarrow> bool" where
  "is_anchor C px py \<longleftrightarrow> is_start C px py \<or> is_end C px py"


section \<open>Dijkstra button handler\<close>

text \<open>The local \<open>struct Node { float d; int x, y; }\<close> of the Dijkstra handler.\<close>

record 'c Node =
  node_d :: 'c
  node_x :: int
  node_y :: int

text \<open>
  The locals of the handler that the search loop mutates: \<open>dist\<close>, \<open>prev\<close>, \<open>pq\<close>
  (pending entries in insertion order) and \<open>dijkstraAnimationSteps\<close>.
\<close>

record 'c dstate =
  dist :: "'c list list"
  prev :: "coord list list"
  pq :: "'c Node list"
  steps :: "AnimationStep list"

definition in_grid :: "('c, 'z) config_scheme \<Rightarrow> int \<Rightarrow> int \<Rightarrow> bool" where
  "in_grid C px py \<longleftrightarrow> px \<ge> 0 \<and> px < GRID_SIZE C \<and> py \<ge> 0 \<and> py < GRID_SIZE C"

definition moveCost :: "('c, 'z) config_scheme \<Rightarrow> coord \<Rightarrow> 'c" where
  "moveCost C dir = (if fst dir \<noteq> 0 \<and> snd dir \<noteq> 0 then DIAGONAL_COST C else CARDINAL_COST C)"

definition push_step :: "('c, 'z) config_scheme \<Rightarrow> int \<Rightarrow> int \<Rightarrow> color \<Rightarrow>
    AnimationStep list \<Rightarrow> AnimationStep list" where
  "push_step C px py col ss =
     (if \<not> is_anchor C px py then ss @ [\<lparr>coord = (px, py), color = col\<rparr>] else ss)"

text \<open>
  Lines 231-241: the relaxation of the neighbour n = (nx, ny) with the tentative cost nd,
  from the cell (cx, cy).
\<close>

definition dijkstra_update :: "('c, 'z) config_scheme \<Rightarrow> int \<Rightarrow> int \<Rightarrow> 'c dstate \<Rightarrow> coord \<Rightarrow> 'c \<Rightarrow>
    'c dstate" where
  "dijkstra_update C cx cy st n nd =
     (let nx = fst n; ny = snd n in
      if fless C nd (at2 (dist st) ny nx) then
        st\<lparr>dist := upd2 (dist st) ny nx nd,
           prev := upd2 (prev st) ny nx (cx, cy),
           pq := pq st @ [\<lparr>node_d = nd, node_x = nx, node_y = ny\<rparr>],
           steps := push_step C nx ny Cyan (steps st)\<rparr>
      else st)"

text \<open>The body of \<open>for (auto &dir : directions)\<close>, lines 225-242.\<close>

definition dijkstra_relax :: "('c, 'z) config_scheme \<Rightarrow> bool list list \<Rightarrow> int \<Rightarrow> int \<Rightarrow> 'c \<Rightarrow>
    'c dstate \<Rightarrow> coord \<Rightarrow> 'c dstate" where
  "dijkstra_relax C wall cx cy cd st dir =
     (let nx = cx + fst dir; ny = cy + snd dir in
      if in_grid C nx ny \<and> \<not> at2 wall ny nx
      then dijkstra_update C cx cy st (nx, ny) (fadd C cd (moveCost C dir))
      else st)"

text \<open>
  Lines 207-243: what an iteration of \<open>while (!pq.empty())\<close> does with the entry it
  has popped.  The flag returned is True when the iteration leaves the loop by
  \<open>break\<close>; the loop below carries it with the state.
\<close>

definition dijkstra_visit :: "('c, 'z) config_scheme \<Rightarrow> bool list list \<Rightarrow> 'c Node \<Rightarrow> 'c dstate \<Rightarrow>
    'c dstate \<times> bool" where
  "dijkstra_visit C wall node st1 =
     (let cx = node_x node; cy = node_y node; cd = node_d node in
      if fless C (fadd C (at2 (dist st1) cy cx) (FLT_EPSILON C)) cd then (st1, False)
      else
        (let st2 = st1\<lparr>steps := push_step C cx cy Grey (steps st1)\<rparr> in
         if is_end C cx cy then (st2, True)
         else (foldl (dijkstra_relax C wall cx cy cd) st2 directions, False)))"

text \<open>Lines 205-206: \<open>pq.top()\<close> and \<open>pq.pop()\<close> on a non-empty queue, then the above.\<close>

definition dijkstra_iter :: "('c, 'z) config_scheme \<Rightarrow> bool list list \<Rightarrow> 'c dstate \<Rightarrow>
    'c dstate \<times> bool" where
  "dijkstra_iter C wall st =
     (let i = pq_top_index C (map node_d (pq st)) in
      dijkstra_visit C wall (pq st ! i) (st\<lparr>pq := take i (pq st) @ drop (Suc i) (pq st)\<rparr>))"

partial_function (option) dijkstra_loop :: "('c, 'z) config_scheme \<Rightarrow> bool list list \<Rightarrow>
    'c dstate \<times> bool \<Rightarrow> 'c dstate option" where
  "dijkstra_loop C wall p =
     (if snd p \<or> pq (fst p) = [] then Some (fst p)
      else dijkstra_loop C wall (dijkstra_iter C wall (fst p)))"

declare dijkstra_loop.simps [code]

text \<open>Lines 185-201: the state in which the loop is entered.\<close>

definition dijkstra_init :: "('c, 'z) config_scheme \<Rightarrow> 'c dstate" where
  "dijkstra_init C =
     \<lparr>dist = upd2 (matrix (GRID_SIZE C) (FLT_MAX C)) (startY C) (startX C) (fzero C),
      prev = matrix (GRID_SIZE C) (-1, -1),
      pq = [\<lparr>node_d = fzero C, node_x = startX C, node_y = startY C\<rparr>],
      steps = [\<lparr>coord = (startX C, startY C), color = Cyan\<rparr>]\<rparr>"


subsection \<open>Path reconstruction\<close>

text \<open>
  Reading a vector outside its range is undefined behaviour in the program; the model
  makes it the error \<open>OutOfRange\<close>.  A loop that never ends is the value \<open>None\<close>.
\<close>

datatype error = OutOfRange

definition in_range2 :: "'a list list \<Rightarrow> int \<Rightarrow> int \<Rightarrow> bool" where
  "in_range2 m r c \<longleftrightarrow> 0 \<le> r \<and> nat r < length m \<and> 0 \<le> c \<and> nat c < length (m ! nat r)"

text \<open>
  The loop \<open>while (!(tx == startX && ty == startY))\<close>, lines 250-256 (and, word for
  word, lines 362-368 of the A* handler), from (tx, ty) = t; \<open>finalPath\<close> grows at
  its end.
\<close>

partial_function (option) follow_prev :: "int \<Rightarrow> int \<Rightarrow> coord list list \<Rightarrow> coord \<Rightarrow>
    coord list \<Rightarrow> (error + coord list) option" where
  "follow_prev sx sy prv t finalPath =
     (if fst t = sx \<and> snd t = sy then Some (Inr finalPath)
      else if \<not> in_range2 prv (snd t) (fst t) then Some (Inl OutOfRange)
      else follow_prev sx sy prv (at2 prv (snd t) (fst t)) (finalPath @ [t]))"

declare follow_prev.simps [code]

datatype path_result = Found "coord list" | NotFound

text \<open>
  Lines 250-267 (362-379): the path from the predecessor matrix, then one step of colour
  \<open>col\<close> for each of its cells but the anchors.
\<close>

definition push_path :: "('c, 'z) config_scheme \<Rightarrow> color \<Rightarrow> AnimationStep list \<Rightarrow> coord list \<Rightarrow>
    AnimationStep list" where
  "push_path C col ss finalPath = foldl (\<lambda>acc p. push_step C (fst p) (snd p) col acc) ss finalPath"

definition reconstruct :: "('c, 'z) config_scheme \<Rightarrow> coord list list \<Rightarrow> color \<Rightarrow>
    AnimationStep list \<Rightarrow> (error + AnimationStep list \<times> path_result) option" where
  "reconstruct C prv col ss =
     (case follow_prev (startX C) (startY C) prv (endX C, endY C) [] of
        None \<Rightarrow> None
      | Some (Inl e) \<Rightarrow> Some (Inl e)
      | Some (Inr fp) \<Rightarrow>
          (let finalPath = rev (fp @ [(startX C, startY C)])
           in Some (Inr (push_path C col ss finalPath, Found finalPath))))"

text \<open>Lines 246-272: what the handler does once the loop is left.\<close>

definition dijkstra_finish :: "('c, 'z) config_scheme \<Rightarrow> 'c dstate \<Rightarrow>
    (error + AnimationStep list \<times> path_result) option" where
  "dijkstra_finish C st =
     (if fless C (at2 (dist st) (endY C) (endX C)) (FLT_MAX C)
      then reconstruct C (prev st) Green (steps st)
      else Some (Inr (steps st, NotFound)))"

text \<open>Lines 184-272: the whole search of the Dijkstra handler.\<close>

definition dijkstra_search :: "('c, 'z) config_scheme \<Rightarrow> bool list list \<Rightarrow>
    (error + AnimationStep list \<times> path_result) option" where
  "dijkstra_search C wall =
     (case dijkstra_loop C wall (dijkstra_init C, False) of
        None \<Rightarrow> None
      | Some st \<Rightarrow> dijkstra_finish C st)"

section \<open>A* button handler\<close>

text \<open>The local \<open>struct Node { float f, g; int x, y; }\<close> of the A* handler.\<close>

record 'c ANode =
  anode_f :: 'c
  anode_g :: 'c
  anode_x :: int
  anode_y :: int

record 'c astate =
  g_cost :: "'c list list"
  aprev :: "coord list list"
  apq :: "'c ANode list"
  asteps :: "AnimationStep list"

definition heuristic :: "('c, 'z) config_scheme \<Rightarrow> int \<Rightarrow> int \<Rightarrow> 'c" where
  "heuristic C px py =
     (let dx = \<bar>px - endX C\<bar>; dy = \<bar>py - endY C\<bar> in float_of_int C (max dx dy))"

text \<open>
  Lines 342-353: the relaxation of the neighbour n = (nx, ny) with the tentative cost ng,
  from the cell (cx, cy).
\<close>

definition astar_update :: "('c, 'z) config_scheme \<Rightarrow> int \<Rightarrow> int \<Rightarrow> 'c astate \<Rightarrow> coord \<Rightarrow> 'c \<Rightarrow>
    'c astate" where
  "astar_update C cx cy st n ng =
     (let nx = fst n; ny = snd n in
      if fless C ng (at2 (g_cost st) ny nx) then
        (let f = fadd C ng (heuristic C nx ny) in
         st\<lparr>g_cost := upd2 (g_cost st) ny nx ng,
            aprev := upd2 (aprev st) ny nx (cx, cy),
            apq := apq st @ [\<lparr>anode_f = f, anode_g = ng, anode_x = nx, anode_y = ny\<rparr>],
            asteps := push_step C nx ny Cyan (asteps st)\<rparr>)
      else st)"

text \<open>The body of \<open>for (auto &dir : directions)\<close>, lines 336-354.\<close>

definition astar_relax :: "('c, 'z) config_scheme \<Rightarrow> bool list list \<Rightarrow> int \<Rightarrow> int \<Rightarrow> 'c \<Rightarrow>
    'c astate \<Rightarrow> coord \<Rightarrow> 'c astate" where
  "astar_relax C wall cx cy cg st dir =
     (let nx = cx + fst dir; ny = cy + snd dir in
      if in_grid C nx ny \<and> \<not> at2 wall ny nx
      then astar_update C cx cy st (nx, ny) (fadd C cg (moveCost C dir))
      else st)"

text \<open>Lines 318-355: what an iteration does with the entry it has popped.\<close>

definition astar_visit :: "('c, 'z) config_scheme \<Rightarrow> bool list list \<Rightarrow> 'c ANode \<Rightarrow> 'c astate \<Rightarrow>
    'c astate \<times> bool" where
  "astar_visit C wall node st1 =
     (let cx = anode_x node; cy = anode_y node; cg = anode_g node in
      if fless C (fadd C (at2 (g_cost st1) cy cx) (FLT_EPSILON C)) cg then (st1, False)
      else
        (let st2 = st1\<lparr>asteps := push_step C cx cy Grey (asteps st1)\<rparr> in
         if is_end C cx cy then (st2, True)
         else (foldl (astar_relax C wall cx cy cg) st2 directions, False)))"

text \<open>Lines 316-317: \<open>pq.top()\<close> and \<open>pq.pop()\<close> on a non-empty queue, then the above.\<close>

definition astar_iter :: "('c, 'z) config_scheme \<Rightarrow> bool list list \<Rightarrow> 'c astate \<Rightarrow>
    'c astate \<times> bool" where
  "astar_iter C wall st =
     (let i = pq_top_index C (map anode_f (apq st)) in
      astar_visit C wall (apq st ! i) (st\<lparr>apq := take i (apq st) @ drop (Suc i) (apq st)\<rparr>))"

partial_function (option) astar_loop :: "('c, 'z) config_scheme \<Rightarrow> bool list list \<Rightarrow>
    'c astate \<times> bool \<Rightarrow> 'c astate option" where
  "astar_loop C wall p =
     (if snd p \<or> apq (fst p) = [] then Some (fst p)
      else astar_loop C wall (astar_iter C wall (fst p)))"

declare astar_loop.simps [code]

text \<open>Lines 289-312.\<close>

definition astar_init :: "('c, 'z) config_scheme \<Rightarrow> 'c astate" where
  "astar_init C =
     \<lparr>g_cost = upd2 (matrix (GRID_SIZE C) (FLT_MAX C)) (startY C) (startX C) (fzero C),
      aprev = matrix (GRID_SIZE C) (-1, -1),
      apq = [\<lparr>anode_f = heuristic C (startX C) (startY C), anode_g = fzero C,
              anode_x = startX C, anode_y = startY C\<rparr>],
      asteps = [\<lparr>coord = (startX C, startY C), color = Cyan\<rparr>]\<rparr>"

text \<open>Lines 358-384.\<close>

definition astar_finish :: "('c, 'z) config_scheme \<Rightarrow> 'c astate \<Rightarrow>
    (error + AnimationStep list \<times> path_result) option" where
  "astar_finish C st =
     (if fless C (at2 (g_cost st) (endY C) (endX C)) (FLT_MAX C)
      then reconstruct C (aprev st) Magenta (asteps st)
      else Some (Inr (asteps st, NotFound)))"

text \<open>Lines 288-384: the whole search of the A* handler.\<close>

definition astar_search :: "('c, 'z) config_scheme \<Rightarrow> bool list list \<Rightarrow>
    (error + AnimationStep list \<times> path_result) option" where
  "astar_search C wall =
     (case astar_loop C wall (astar_init C, False) of
        None \<Rightarrow> None
      | Some st \<Rightarrow> astar_finish C st)"

section \<open>The event loop's left-click handler\<close>

text \<open>
  The variables of \<open>main\<close> that the click handlers read and write.  The colours
  of the cells (\<open>gridColors\<close>) and the clock only feed the rendering and are left out.
\<close>

record app =
  wall :: "bool list list"
  dijkstraAnimationSteps :: "AnimationStep list"
  astarAnimationSteps :: "AnimationStep list"
  currentDijkstraAnimFrame :: int
  currentAstarAnimFrame :: int
  currentMessage :: string

text \<open>Lines 53-74: the state in which the event loop is entered.\<close>

definition app_init :: "('c, 'z) config_scheme \<Rightarrow> app" where
  "app_init C =
     \<lparr>wall = matrix (GRID_SIZE C) False,
      dijkstraAnimationSteps = [], astarAnimationSteps = [],
      currentDijkstraAnimFrame = -1, currentAstarAnimFrame = -1,
      currentMessage = []\<rparr>"

text \<open>Lines 158-171: a click in the grid area.\<close>

definition grid_click :: "('c, 'z) config_scheme \<Rightarrow> app \<Rightarrow> int \<Rightarrow> int \<Rightarrow> app" where
  "grid_click C s mx my =
     (let col = mx div CELL_SIZE C; row = my div CELL_SIZE C;
          w = (if \<not> (is_start C col row \<or> is_end C col row)
               then upd2 (wall s) row col (\<not> at2 (wall s) row col) else wall s)
      in s\<lparr>wall := w, dijkstraAnimationSteps := [], astarAnimationSteps := [],
           currentDijkstraAnimFrame := -1, currentAstarAnimFrame := -1,
           currentMessage := []\<rparr>)"

text \<open>Lines 177-274: a click on the Dijkstra button.\<close>

definition dijkstra_click :: "('c, 'z) config_scheme \<Rightarrow> app \<Rightarrow> (error + app) option" where
  "dijkstra_click C s =
     (case dijkstra_search C (wall s) of
        None \<Rightarrow> None
      | Some (Inl e) \<Rightarrow> Some (Inl e)
      | Some (Inr (ss, r)) \<Rightarrow>
          Some (Inr (s\<lparr>currentAstarAnimFrame := -1,
                       dijkstraAnimationSteps := ss,
                       astarAnimationSteps := [],
                       currentMessage := (if r = NotFound then ''Dijkstra: No Path Found!'' else []),
                       currentDijkstraAnimFrame := 0\<rparr>)))"

text \<open>Lines 281-386: a click on the A* button.\<close>

definition astar_click :: "('c, 'z) config_scheme \<Rightarrow> app \<Rightarrow> (error + app) option" where
  "astar_click C s =
     (case astar_search C (wall s) of
        None \<Rightarrow> None
      | Some (Inl e) \<Rightarrow> Some (Inl e)
      | Some (Inr (ss, r)) \<Rightarrow>
          Some (Inr (s\<lparr>currentDijkstraAnimFrame := -1,
                       astarAnimationSteps := ss,
                       dijkstraAnimationSteps := [],
                       currentMessage := (if r = NotFound then ''A*: No Path Found!'' else []),
                       currentAstarAnimFrame := 0\<rparr>)))"

text \<open>Lines 150-388: a press of the left mouse button at pixel (mx, my).\<close>

definition left_click :: "('c, 'z) config_scheme \<Rightarrow> app \<Rightarrow> int \<times> int \<Rightarrow> (error + app) option" where
  "left_click C s m =
     (let mx = fst m; my = snd m in
      if mx \<ge> 0 \<and> mx < GRID_SIZE C * CELL_SIZE C \<and> my \<ge> 0 \<and> my < GRID_SIZE C * CELL_SIZE C
      then Some (Inr (grid_click C s mx my))
      else if in_dijkstra_button C mx my then dijkstra_click C s
      else if in_astar_button C mx my then astar_click C s
      else Some (Inr s))"

text \<open>A sequence of left clicks; an error or a handler that never returns ends it.\<close>

fun left_clicks :: "('c, 'z) config_scheme \<Rightarrow> app \<Rightarrow> (int \<times> int) list \<Rightarrow> (error + app) option" where
  "left_clicks C s [] = Some (Inr s)"
| "left_clicks C s (m # ms) =
     (case left_click C s m of
        None \<Rightarrow> None
      | Some (Inl e) \<Rightarrow> Some (Inl e)
      | Some (Inr s') \<Rightarrow> left_clicks C s' ms)"

section \<open>A concrete instance of the parameters\<close>

text \<open>
  Single precision on the values the searches compute.  A non-negative finite float that
  is a multiple of \<open>2\<^sup>-\<^sup>2\<^sup>3\<close> is the natural number of its units of \<open>2\<^sup>-\<^sup>2\<^sup>3\<close>: \<open>1.0f\<close> is
  \<open>2\<^sup>2\<^sup>3\<close>, \<open>epsilon()\<close> is 1, \<open>std::sqrt(2.0f)\<close> (0x3FB504F3) is 11863283 and
  \<open>max()\<close> is \<open>(2\<^sup>2\<^sup>4 - 1) * 2\<^sup>1\<^sup>2\<^sup>7\<close>.  A sum is rounded to 24 significant bits, ties to
  even.  (A sum above \<open>max()\<close>, which IEEE arithmetic makes infinite, is never computed:
  the searches add only to the cost of a popped entry.)
\<close>

fun bit_length :: "nat \<Rightarrow> nat" where
  "bit_length n = (if n = 0 then 0 else Suc (bit_length (n div 2)))"

definition round_single :: "nat \<Rightarrow> nat" where
  "round_single n =
     (if n < 2 ^ 24 then n
      else (let e = bit_length n - 24; q = n div 2 ^ e; r = n mod 2 ^ e in
            (if 2 * r > 2 ^ e \<or> (2 * r = 2 ^ e \<and> odd q) then q + 1 else q) * 2 ^ e))"

definition single_add :: "nat \<Rightarrow> nat \<Rightarrow> nat" where
  "single_add a b = round_single (a + b)"

text \<open>A queue discipline: the first of the entries with the least key.\<close>

fun first_min :: "nat list \<Rightarrow> nat" where
  "first_min [] = 0"
| "first_min [k] = 0"
| "first_min (k # ks) = (let i = first_min ks in if ks ! i < k then Suc i else 0)"

definition single_config :: "int \<Rightarrow> coord \<Rightarrow> coord \<Rightarrow> nat config" where
  "single_config n s e =
     \<lparr>fadd = single_add, fless = (<), float_of_int = (\<lambda>i. nat i * 2 ^ 23), fzero = 0,
      FLT_MAX = (2 ^ 24 - 1) * 2 ^ 127, FLT_EPSILON = 1,
      CARDINAL_COST = 2 ^ 23, DIAGONAL_COST = 11863283,
      GRID_SIZE = n, CELL_SIZE = 25,
      startX = fst s, startY = snd s, endX = fst e, endY = snd e,
      pq_top_index = first_min,
      in_dijkstra_button = (\<lambda>mx my. False), in_astar_button = (\<lambda>mx my. False)\<rparr>"

text \<open>The program's own constants: a 20 x 20 grid, Start (0, 0), End (19, 19).\<close>

definition main_config :: "nat config" where
  "main_config = single_config 20 (0, 0) (19, 19)"

text \<open>A grid of side n whose blocked cells are those listed.\<close>

definition walls :: "int \<Rightarrow> coord list \<Rightarrow> bool list list" where
  "walls n cs = foldl (\<lambda>w c. upd2 w (snd c) (fst c) True) (matrix n False) cs"

section \<open>Predicates used in the statements\<close>

text \<open>
  What the program's constants satisfy: cells have a positive size and the start and end
  positions are cells of the grid.
\<close>

definition valid_config :: "('c, 'z) config_scheme \<Rightarrow> bool" where
  "valid_config C \<longleftrightarrow>
     0 < CELL_SIZE C \<and> in_grid C (startX C) (startY C) \<and> in_grid C (endX C) (endY C)"

text \<open>An n x n matrix, as \<open>wall\<close>, \<open>dist\<close> and \<open>prev\<close> are built.\<close>

definition square :: "int \<Rightarrow> 'a list list \<Rightarrow> bool" where
  "square n m \<longleftrightarrow> length m = nat n \<and> list_all (\<lambda>row. length row = nat n) m"

definition anchors_free :: "('c, 'z) config_scheme \<Rightarrow> bool list list \<Rightarrow> bool" where
  "anchors_free C w \<longleftrightarrow> \<not> at2 w (startY C) (startX C) \<and> \<not> at2 w (endY C) (endX C)"

text \<open>
  The neighbours the two \<open>for (auto &dir : directions)\<close> loops relax from the cell
  (cx, cy), in the order of the loop, each with the cost of the move: the candidates that
  pass the test of lines 227 and 338.
\<close>

definition neighbors :: "('c, 'z) config_scheme \<Rightarrow> bool list list \<Rightarrow> int \<Rightarrow> int \<Rightarrow> (coord \<times> 'c) list" where
  "neighbors C W cx cy =
     map (\<lambda>dir. ((cx + fst dir, cy + snd dir), moveCost C dir))
       (filter (\<lambda>dir. in_grid C (cx + fst dir) (cy + snd dir)
                     \<and> \<not> at2 W (cy + snd dir) (cx + fst dir)) directions)"

text \<open>
  A sequence of animation steps that starts with the Cyan step of the Start cell and has
  no other step on the Start or the End cell.
\<close>

definition anchored_trace :: "('c, 'z) config_scheme \<Rightarrow> AnimationStep list \<Rightarrow> bool" where
  "anchored_trace C ss \<longleftrightarrow>
     ss \<noteq> [] \<and> hd ss = \<lparr>coord = (startX C, startY C), color = Cyan\<rparr> \<and>
     list_all (\<lambda>e. \<not> is_anchor C (fst (coord e)) (snd (coord e))) (tl ss)"




text \<open>
  The cost of a path under the program's cost model, accumulated from its first cell as
  the searches accumulate it: each move adds \<open>moveCost\<close> of its offset.
\<close>

fun path_cost :: "('c, 'z) config_scheme \<Rightarrow> 'c \<Rightarrow> coord list \<Rightarrow> 'c" where
  "path_cost C acc (p # q # ps) =
     path_cost C (fadd C acc (moveCost C (fst q - fst p, snd q - snd p))) (q # ps)"
| "path_cost C acc ps = acc"

definition result_cost :: "('c, 'z) config_scheme \<Rightarrow> path_result \<Rightarrow> 'c option" where
  "result_cost C r = (case r of Found p \<Rightarrow> Some (path_cost C (fzero C) p) | NotFound \<Rightarrow> None)"

text \<open>
  What the searches need of \<open>std::priority_queue\<close>: \<open>top\<close> returns one of the pending
  entries.
\<close>

definition pq_contract :: "('c, 'z) config_scheme \<Rightarrow> bool" where
  "pq_contract C \<longleftrightarrow> (\<forall>ks. ks \<noteq> [] \<longrightarrow> pq_top_index C ks < length ks)"

text \<open>
  The comparison \<open><\<close> of the costs, as a relation.  On floats it has no infinite
  descending chain (there are finitely many floats and \<open><\<close> is a strict order).
\<close>

definition fless_rel :: "('c, 'z) config_scheme \<Rightarrow> ('c \<times> 'c) set" where
  "fless_rel C = {(a, b). fless C a b}"

text \<open>
  The order in which the cost matrix goes down along a search: some cell is lowered, in
  one or more steps.
\<close>

definition matrix_below :: "('c, 'z) config_scheme \<Rightarrow> ('c list list \<times> 'c list list) set" where
  "matrix_below C = inv_image ((lex (fless_rel C))\<^sup>+) concat"

text \<open>
  The order in which the state of a search loop goes down with each iteration: the cost
  matrix goes down, or it stays and the queue gets shorter.
\<close>

definition dijkstra_less :: "('c, 'z) config_scheme \<Rightarrow> ('c dstate \<times> 'c dstate) set" where
  "dijkstra_less C = inv_image (matrix_below C <*lex*> less_than) (\<lambda>st. (dist st, length (pq st)))"

definition astar_less :: "('c, 'z) config_scheme \<Rightarrow> ('c astate \<times> 'c astate) set" where
  "astar_less C = inv_image (matrix_below C <*lex*> less_than) (\<lambda>st. (g_cost st, length (apq st)))"

definition dijkstra_prog :: "('c, 'z) config_scheme \<Rightarrow> 'c dstate \<Rightarrow> 'c dstate \<Rightarrow> bool" where
  "dijkstra_prog C st' st \<longleftrightarrow>
     (dist st' = dist st \<and> pq st' = pq st) \<or> (dist st', dist st) \<in> matrix_below C"

definition astar_prog :: "('c, 'z) config_scheme \<Rightarrow> 'c astate \<Rightarrow> 'c astate \<Rightarrow> bool" where
  "astar_prog C st' st \<longleftrightarrow>
     (g_cost st' = g_cost st \<and> apq st' = apq st) \<or> (g_cost st', g_cost st) \<in> matrix_below C"

text \<open>End is fully enclosed: each of its 8 neighbours that lies in the grid is blocked.\<close>

definition enclosed_end :: "('c, 'z) config_scheme \<Rightarrow> bool list list \<Rightarrow> bool" where
  "enclosed_end C W \<longleftrightarrow>
     list_all (\<lambda>dir. in_grid C (endX C + fst dir) (endY C + snd dir)
                 \<longrightarrow> at2 W (endY C + snd dir) (endX C + fst dir)) directions"

text \<open>No step in a path colour (\<open>Green\<close> for Dijkstra, magenta for A*).\<close>

definition no_path_steps :: "AnimationStep list \<Rightarrow> bool" where
  "no_path_steps ss \<longleftrightarrow> list_all (\<lambda>e. color e \<noteq> Green \<and> color e \<noteq> Magenta) ss"

text \<open>
  What holds along a search when End is enclosed: the cost recorded at End is still
  \<open>max()\<close>, every pending entry is an unblocked cell of the grid, and no path step has
  been pushed.
\<close>

definition dijkstra_sealed :: "('c, 'z) config_scheme \<Rightarrow> bool list list \<Rightarrow> 'c dstate \<Rightarrow> bool" where
  "dijkstra_sealed C W st \<longleftrightarrow>
     square (GRID_SIZE C) (dist st) \<and> at2 (dist st) (endY C) (endX C) = FLT_MAX C \<and>
     list_all (\<lambda>node. in_grid C (node_x node) (node_y node)
                 \<and> \<not> at2 W (node_y node) (node_x node)) (pq st) \<and>
     no_path_steps (steps st)"

definition astar_sealed :: "('c, 'z) config_scheme \<Rightarrow> bool list list \<Rightarrow> 'c astate \<Rightarrow> bool" where
  "astar_sealed C W st \<longleftrightarrow>
     square (GRID_SIZE C) (g_cost st) \<and> at2 (g_cost st) (endY C) (endX C) = FLT_MAX C \<and>
     list_all (\<lambda>node. in_grid C (anode_x node) (anode_y node)
                 \<and> \<not> at2 W (anode_y node) (anode_x node)) (apq st) \<and>
     no_path_steps (asteps st)"

text \<open>
  What the invariant of the predecessor matrix needs of \<open><\<close> on the costs: it is
  irreflexive and transitive (as \<open><\<close> on floats is), and \<open>0.0f < max()\<close>.
\<close>

definition float_order :: "('c, 'z) config_scheme \<Rightarrow> bool" where
  "float_order C \<longleftrightarrow>
     (\<forall>a. \<not> fless C a a) \<and>
     (\<forall>a b c. fless C a b \<and> fless C b c \<longrightarrow> fless C a c) \<and>
     fless C (fzero C) (FLT_MAX C)"

text \<open>
  The cell p is a good predecessor of the cell c under the cost matrix d: p is in the
  grid, is not blocked, c is one of its 8 neighbours, and the cost recorded at p is finite.
\<close>

definition good_prev :: "('c, 'z) config_scheme \<Rightarrow> bool list list \<Rightarrow> 'c list list \<Rightarrow> coord \<Rightarrow> coord \<Rightarrow> bool" where
  "good_prev C W d p c \<longleftrightarrow>
     in_grid C (fst p) (snd p) \<and> \<not> at2 W (snd p) (fst p) \<and>
     (fst c - fst p, snd c - snd p) \<in> set directions \<and>
     fless C (at2 d (snd p) (fst p)) (FLT_MAX C)"

text \<open>
  The invariant of the cost matrix d and the predecessor matrix prv: each cell of the grid
  has the cost \<open>max()\<close> or a finite cost, and a cell with a finite cost is Start or has a
  good predecessor.
\<close>

definition cost_inv :: "('c, 'z) config_scheme \<Rightarrow> bool list list \<Rightarrow> 'c list list \<Rightarrow> coord list list \<Rightarrow> bool" where
  "cost_inv C W d prv \<longleftrightarrow>
     square (GRID_SIZE C) d \<and> square (GRID_SIZE C) prv \<and>
     (\<forall>x y. in_grid C x y \<longrightarrow>
        at2 d y x = FLT_MAX C \<or>
        (fless C (at2 d y x) (FLT_MAX C) \<and>
         (is_start C x y \<or> good_prev C W d (at2 prv y x) (x, y))))"

text \<open>A cell that can be pending: in the grid, not blocked, with a finite cost.\<close>

definition open_cell :: "('c, 'z) config_scheme \<Rightarrow> bool list list \<Rightarrow> 'c list list \<Rightarrow> int \<Rightarrow> int \<Rightarrow> bool" where
  "open_cell C W d px py \<longleftrightarrow>
     in_grid C px py \<and> \<not> at2 W py px \<and> fless C (at2 d py px) (FLT_MAX C)"

definition dijkstra_inv :: "('c, 'z) config_scheme \<Rightarrow> bool list list \<Rightarrow> 'c dstate \<Rightarrow> bool" where
  "dijkstra_inv C W st \<longleftrightarrow>
     cost_inv C W (dist st) (prev st) \<and>
     list_all (\<lambda>n. open_cell C W (dist st) (node_x n) (node_y n)) (pq st)"

definition astar_inv :: "('c, 'z) config_scheme \<Rightarrow> bool list list \<Rightarrow> 'c astate \<Rightarrow> bool" where
  "astar_inv C W st \<longleftrightarrow>
     cost_inv C W (g_cost st) (aprev st) \<and>
     list_all (\<lambda>n. open_cell C W (g_cost st) (anode_x n) (anode_y n)) (apq st)"

text \<open>
  The state of a search loop after k iterations, with the flag of the last one, when the
  loop runs that long.
\<close>

fun dijkstra_steps :: "('c, 'z) config_scheme \<Rightarrow> bool list list \<Rightarrow> nat \<Rightarrow> 'c dstate \<times> bool \<Rightarrow>
    ('c dstate \<times> bool) option" where
  "dijkstra_steps C W 0 p = Some p"
| "dijkstra_steps C W (Suc k) p =
     (if snd p \<or> pq (fst p) = [] then None
      else dijkstra_steps C W k (dijkstra_iter C W (fst p)))"

fun astar_steps :: "('c, 'z) config_scheme \<Rightarrow> bool list list \<Rightarrow> nat \<Rightarrow> 'c astate \<times> bool \<Rightarrow>
    ('c astate \<times> bool) option" where
  "astar_steps C W 0 p = Some p"
| "astar_steps C W (Suc k) p =
     (if snd p \<or> apq (fst p) = [] then None
      else astar_steps C W k (astar_iter C W (fst p)))"

section \<open>Properties\<close>

subsection \<open>Matrices\<close>

lemma at2_upd2_other:
  assumes "0 \<le> r" "0 \<le> c" "0 \<le> r'" "0 \<le> c'" "r \<noteq> r' \<or> c \<noteq> c'"
  shows "at2 (upd2 m r c v) r' c' = at2 m r' c'"
proof (cases "nat r = nat r'")
  case False
  then show ?thesis by (simp add: at2_def upd2_def)
next
  case True
  with assms have rr: "r = r'" and cc: "nat c \<noteq> nat c'" by auto
  show ?thesis
  proof (cases "nat r < length m")
    case True
    then show ?thesis using rr cc by (simp add: at2_def upd2_def)
  next
    case False
    then show ?thesis by (simp add: at2_def upd2_def list_update_beyond)
  qed
qed

lemma at2_upd2_same:
  assumes "in_range2 m r c"
  shows "at2 (upd2 m r c v) r c = v"
  using assms by (simp add: at2_def upd2_def in_range2_def)

lemma square_upd2: "square n m \<Longrightarrow> square n (upd2 m r c v)"
proof (cases "nat r < length m")
  case True
  assume "square n m"
  with True show ?thesis
    by (auto simp: square_def upd2_def list_all_iff dest!: set_update_subset_insert[THEN subsetD])
next
  case False
  assume "square n m"
  with False show ?thesis by (simp add: upd2_def list_update_beyond)
qed

lemma square_matrix: "square n (matrix n v)"
  by (simp add: square_def matrix_def list_all_iff)

lemma square_in_range2:
  "square n m \<Longrightarrow> in_range2 m r c \<longleftrightarrow> 0 \<le> r \<and> r < n \<and> 0 \<le> c \<and> c < n"
  by (auto simp: square_def in_range2_def list_all_iff)

lemma at2_matrix: "0 \<le> r \<Longrightarrow> r < n \<Longrightarrow> 0 \<le> c \<Longrightarrow> c < n \<Longrightarrow> at2 (matrix n v) r c = v"
  by (simp add: at2_def matrix_def)

subsection \<open>The wall toggle\<close>

lemma grid_click_anchors:
  assumes v: "valid_config C" and m: "0 \<le> mx" "0 \<le> my" and a: "anchors_free C (wall s)"
  shows "anchors_free C (wall (grid_click C s mx my))"
proof -
  let ?col = "mx div CELL_SIZE C" and ?row = "my div CELL_SIZE C"
  from v m have nn: "0 \<le> ?col" "0 \<le> ?row"
    by (simp_all add: valid_config_def pos_imp_zdiv_nonneg_iff)
  from v have s: "0 \<le> startX C" "0 \<le> startY C" "0 \<le> endX C" "0 \<le> endY C"
    by (simp_all add: valid_config_def in_grid_def)
  show ?thesis
  proof (cases "is_start C ?col ?row \<or> is_end C ?col ?row")
    case True
    then show ?thesis using a by (auto simp: grid_click_def Let_def)
  next
    case False
    then have "?row \<noteq> startY C \<or> ?col \<noteq> startX C" "?row \<noteq> endY C \<or> ?col \<noteq> endX C"
      by (auto simp: is_start_def is_end_def)
    then show ?thesis using a False nn s
      by (simp add: grid_click_def Let_def anchors_free_def at2_upd2_other)
  qed
qed

lemma left_click_anchors:
  assumes v: "valid_config C" and a: "anchors_free C (wall s)"
    and l: "left_click C s m = Some (Inr s')"
  shows "anchors_free C (wall s')"
  using l a grid_click_anchors[OF v _ _ a, of "fst m" "snd m"]
  by (auto simp: left_click_def Let_def dijkstra_click_def astar_click_def
      split: if_splits option.splits sum.splits prod.splits)

lemma left_clicks_anchors:
  assumes v: "valid_config C"
  shows "anchors_free C (wall s) \<Longrightarrow> left_clicks C s ms = Some (Inr s') \<Longrightarrow>
    anchors_free C (wall s')"
proof (induction ms arbitrary: s)
  case Nil
  then show ?case by simp
next
  case (Cons m ms)
  from Cons.prems(2) obtain s1 where s1: "left_click C s m = Some (Inr s1)"
    and r: "left_clicks C s1 ms = Some (Inr s')"
    by (auto split: option.splits sum.splits)
  from left_click_anchors[OF v Cons.prems(1) s1] have "anchors_free C (wall s1)" .
  from Cons.IH[OF this r] show ?case .
qed

lemma app_init_anchors: "valid_config C \<Longrightarrow> anchors_free C (wall (app_init C))"
  by (simp add: valid_config_def anchors_free_def app_init_def in_grid_def at2_matrix)

text \<open>
  C9.  In every state the event loop reaches from its initial state by left clicks, the
  wall flags of the Start cell and of the End cell are false; and a further click in the
  grid area is handled by the wall toggle and leaves them false (the toggle is skipped on
  Start and on End).
\<close>

theorem C9_start_end_never_blocked:
  assumes "valid_config C" and "left_clicks C (app_init C) ms = Some (Inr s)"
  shows "anchors_free C (wall s) \<and>
    (\<forall>mx my. 0 \<le> mx \<and> mx < GRID_SIZE C * CELL_SIZE C \<and> 0 \<le> my \<and> my < GRID_SIZE C * CELL_SIZE C
       \<longrightarrow> left_click C s (mx, my) = Some (Inr (grid_click C s mx my))
         \<and> anchors_free C (wall (grid_click C s mx my)))"
proof -
  have a: "anchors_free C (wall s)"
    using left_clicks_anchors[OF assms(1) app_init_anchors[OF assms(1)] assms(2)] .
  then show ?thesis
    using grid_click_anchors[OF assms(1) _ _ a] by (simp add: left_click_def)
qed

theorem C9_start_end_never_blocked_witness:
  "valid_config (single_config 2 (0, 0) (1, 1)) \<and>
   left_clicks (single_config 2 (0, 0) (1, 1)) (app_init (single_config 2 (0, 0) (1, 1)))
     [(30, 5), (3, 3), (49, 49)]
     = Some (Inr \<lparr>wall = [[False, True], [False, False]],
          dijkstraAnimationSteps = [], astarAnimationSteps = [],
          currentDijkstraAnimFrame = -1, currentAstarAnimFrame = -1, currentMessage = []\<rparr>) \<and>
   anchors_free (single_config 2 (0, 0) (1, 1)) [[False, True], [False, False]] \<and>
   anchors_free (single_config 2 (0, 0) (1, 1))
     (wall (grid_click (single_config 2 (0, 0) (1, 1))
        \<lparr>wall = [[False, True], [False, False]],
          dijkstraAnimationSteps = [], astarAnimationSteps = [],
          currentDijkstraAnimFrame = -1, currentAstarAnimFrame = -1, currentMessage = []\<rparr> 3 30))"
proof -
  let ?C = "single_config 2 (0, 0) (1, 1)"
  let ?s = "\<lparr>wall = [[False, True], [False, False]],
          dijkstraAnimationSteps = [], astarAnimationSteps = [],
          currentDijkstraAnimFrame = -1, currentAstarAnimFrame = -1, currentMessage = []\<rparr>"
  have v: "valid_config ?C" by code_simp
  have r: "left_clicks ?C (app_init ?C) [(30, 5), (3, 3), (49, 49)] = Some (Inr ?s)"
    by code_simp
  have g: "(0::int) \<le> 3 \<and> 3 < GRID_SIZE ?C * CELL_SIZE ?C \<and> (0::int) \<le> 30 \<and> 30 < GRID_SIZE ?C * CELL_SIZE ?C"
    by (simp add: single_config_def)
  from C9_start_end_never_blocked[OF v r] g
  have "anchors_free ?C (wall ?s) \<and> anchors_free ?C (wall (grid_click ?C ?s 3 30))"
    by blast
  with v r show ?thesis by simp
qed

subsection \<open>Neighbour enumeration\<close>

lemma dijkstra_relax_neighbors_gen:
  "foldl (dijkstra_relax C W cx cy cd) st ds =
   foldl (\<lambda>s nb. dijkstra_update C cx cy s (fst nb) (fadd C cd (snd nb))) st
     (map (\<lambda>dir. ((cx + fst dir, cy + snd dir), moveCost C dir))
       (filter (\<lambda>dir. in_grid C (cx + fst dir) (cy + snd dir)
                     \<and> \<not> at2 W (cy + snd dir) (cx + fst dir)) ds))"
  by (induction ds arbitrary: st) (simp_all add: dijkstra_relax_def Let_def)

lemma astar_relax_neighbors_gen:
  "foldl (astar_relax C W cx cy cd) st ds =
   foldl (\<lambda>s nb. astar_update C cx cy s (fst nb) (fadd C cd (snd nb))) st
     (map (\<lambda>dir. ((cx + fst dir, cy + snd dir), moveCost C dir))
       (filter (\<lambda>dir. in_grid C (cx + fst dir) (cy + snd dir)
                     \<and> \<not> at2 W (cy + snd dir) (cx + fst dir)) ds))"
  by (induction ds arbitrary: st) (simp_all add: astar_relax_def Let_def)

lemma set_directions:
  "set directions = {(1, 0), (-1, 0), (0, 1), (0, -1), (1, 1), (1, -1), (-1, 1), (-1, -1)}"
  by (auto simp: directions_def)

lemma distinct_directions: "distinct directions"
  by (simp add: directions_def)

lemma set_neighbors:
  "set (neighbors C W cx cy) =
     {((cx + dx, cy + dy), if dx \<noteq> 0 \<and> dy \<noteq> 0 then DIAGONAL_COST C else CARDINAL_COST C) | dx dy.
        (dx, dy) \<in> {(1, 0), (-1, 0), (0, 1), (0, -1), (1, 1), (1, -1), (-1, 1), (-1, -1)}
        \<and> 0 \<le> cx + dx \<and> cx + dx < GRID_SIZE C \<and> 0 \<le> cy + dy \<and> cy + dy < GRID_SIZE C
        \<and> at2 W (cy + dy) (cx + dx) = False}" (is "?L = ?R")
proof -
  have "?L = (\<lambda>dir. ((cx + fst dir, cy + snd dir), moveCost C dir)) `
      {dir \<in> set directions. in_grid C (cx + fst dir) (cy + snd dir)
                     \<and> \<not> at2 W (cy + snd dir) (cx + fst dir)}"
    by (simp add: neighbors_def)
  also have "\<dots> = ?R"
  proof (intro set_eqI iffI)
    fix u assume "u \<in> (\<lambda>dir. ((cx + fst dir, cy + snd dir), moveCost C dir)) `
      {dir \<in> set directions. in_grid C (cx + fst dir) (cy + snd dir)
                     \<and> \<not> at2 W (cy + snd dir) (cx + fst dir)}"
    then obtain dir where d: "dir \<in> set directions" "in_grid C (cx + fst dir) (cy + snd dir)"
      "\<not> at2 W (cy + snd dir) (cx + fst dir)"
      and u: "u = ((cx + fst dir, cy + snd dir), moveCost C dir)" by blast
    show "u \<in> ?R"
      apply (rule CollectI)
      apply (rule exI[of _ "fst dir"])
      apply (rule exI[of _ "snd dir"])
      using d u unfolding set_directions by (simp add: moveCost_def in_grid_def)
  next
    fix u assume "u \<in> ?R"
    then obtain dx dy where d: "(dx, dy) \<in> set directions"
      "0 \<le> cx + dx \<and> cx + dx < GRID_SIZE C \<and> 0 \<le> cy + dy \<and> cy + dy < GRID_SIZE C"
      "at2 W (cy + dy) (cx + dx) = False"
      and u: "u = ((cx + dx, cy + dy), if dx \<noteq> 0 \<and> dy \<noteq> 0 then DIAGONAL_COST C else CARDINAL_COST C)"
      unfolding set_directions by blast
    show "u \<in> (\<lambda>dir. ((cx + fst dir, cy + snd dir), moveCost C dir)) `
      {dir \<in> set directions. in_grid C (cx + fst dir) (cy + snd dir)
                     \<and> \<not> at2 W (cy + snd dir) (cx + fst dir)}"
      apply (rule image_eqI[of _ _ "(dx, dy)"])
      using d u by (simp_all add: moveCost_def in_grid_def)
  qed
  finally show ?thesis .
qed

lemma distinct_neighbors: "distinct (map fst (neighbors C W cx cy))"
proof -
  have "distinct (map (\<lambda>dir. (cx + fst dir, cy + snd dir)) directions)"
    using distinct_directions by (simp add: distinct_map inj_on_def prod_eq_iff)
  then have "distinct (map (\<lambda>dir. (cx + fst dir, cy + snd dir))
      (filter (\<lambda>dir. in_grid C (cx + fst dir) (cy + snd dir)
                     \<and> \<not> at2 W (cy + snd dir) (cx + fst dir)) directions))"
    by (rule distinct_map_filter)
  then show ?thesis by (simp add: neighbors_def comp_def)
qed

lemma dijkstra_click_wall:
  "(case dijkstra_click C s of Some (Inr s') \<Rightarrow> wall s' = wall s | _ \<Rightarrow> True)"
  by (simp add: dijkstra_click_def split: option.splits sum.splits prod.splits)

lemma astar_click_wall:
  "(case astar_click C s of Some (Inr s') \<Rightarrow> wall s' = wall s | _ \<Rightarrow> True)"
  by (simp add: astar_click_def split: option.splits sum.splits prod.splits)

text \<open>
  C6.  From a cell (cx, cy) the neighbours relaxed are exactly the cells (cx + dx, cy + dy)
  for the 8 offsets (dx, dy) that lie in [0, GRID_SIZE) on both axes and are not blocked,
  each once; the move costs \<open>CARDINAL_COST\<close> (1.0f) when the offset is axis-aligned and
  \<open>DIAGONAL_COST\<close> (\<open>std::sqrt(2.0f)\<close>) when it is diagonal.  The loops over
  \<open>directions\<close> of both handlers relax these neighbours in this order, and a search
  leaves the wall matrix as it was.
\<close>

theorem C6_neighbor_enumeration:
  "set (neighbors C W cx cy) =
     {((cx + dx, cy + dy), if dx \<noteq> 0 \<and> dy \<noteq> 0 then DIAGONAL_COST C else CARDINAL_COST C) | dx dy.
        (dx, dy) \<in> {(1, 0), (-1, 0), (0, 1), (0, -1), (1, 1), (1, -1), (-1, 1), (-1, -1)}
        \<and> 0 \<le> cx + dx \<and> cx + dx < GRID_SIZE C \<and> 0 \<le> cy + dy \<and> cy + dy < GRID_SIZE C
        \<and> at2 W (cy + dy) (cx + dx) = False}
   \<and> distinct (map fst (neighbors C W cx cy))
   \<and> foldl (dijkstra_relax C W cx cy cd) dst directions =
       foldl (\<lambda>s nb. dijkstra_update C cx cy s (fst nb) (fadd C cd (snd nb))) dst (neighbors C W cx cy)
   \<and> foldl (astar_relax C W cx cy cd) ast directions =
       foldl (\<lambda>s nb. astar_update C cx cy s (fst nb) (fadd C cd (snd nb))) ast (neighbors C W cx cy)
   \<and> (case dijkstra_click C s of Some (Inr s') \<Rightarrow> wall s' = wall s | _ \<Rightarrow> True)
   \<and> (case astar_click C s of Some (Inr s') \<Rightarrow> wall s' = wall s | _ \<Rightarrow> True)"
  using set_neighbors[of C W cx cy] distinct_neighbors[of C W cx cy]
    dijkstra_relax_neighbors_gen[of C W cx cy cd dst directions]
    astar_relax_neighbors_gen[of C W cx cy cd ast directions]
    dijkstra_click_wall[where C = C and s = s] astar_click_wall[where C = C and s = s]
  unfolding neighbors_def by blast

subsection \<open>Stale entries\<close>















subsection \<open>Invariants of the search loops\<close>

lemma dijkstra_loop_invariant:
  assumes "dijkstra_loop C W p = Some st'" and "I (fst p)"
    and step: "\<And>st. I st \<Longrightarrow> pq st \<noteq> [] \<Longrightarrow> I (fst (dijkstra_iter C W st))"
  shows "I st'"
proof -
  have m: "(\<forall>st. I st \<longrightarrow> pq st \<noteq> [] \<longrightarrow> I (fst (dijkstra_iter C W st))) \<longrightarrow> I (fst p) \<longrightarrow> I st'"
    using assms(1)
  proof (induction C W p st' rule: dijkstra_loop.raw_induct)
    case (1 loop C' W' p st')
    show ?case
    proof (intro impI)
      assume s: "\<forall>st. I st \<longrightarrow> pq st \<noteq> [] \<longrightarrow> I (fst (dijkstra_iter C' W' st))"
      assume i: "I (fst p)"
      show "I st'"
      proof (cases "snd p \<or> pq (fst p) = []")
        case True
        with 1(2) have "st' = fst p" by simp
        with i show ?thesis by simp
      next
        case False
        with 1(2) have e: "loop C' W' (dijkstra_iter C' W' (fst p)) = Some st'" by simp
        from False 1(3) have e2: "dijkstra_loop C' W' (dijkstra_iter C' W' (fst p)) = Some st'"
          by (subst (asm) dijkstra_loop.simps) simp
        from False have "pq (fst p) \<noteq> []" by simp
        with s i have i': "I (fst (dijkstra_iter C' W' (fst p)))" by (elim allE impE) assumption
        show ?thesis by (rule mp[OF mp[OF 1(1)[OF e e2] s] i'])
      qed
    qed
  qed (rule assms(1))
  have "\<forall>st. I st \<longrightarrow> pq st \<noteq> [] \<longrightarrow> I (fst (dijkstra_iter C W st))"
    using step by simp
  from mp[OF mp[OF m this] assms(2)] show ?thesis .
qed

lemma astar_loop_invariant:
  assumes "astar_loop C W p = Some st'" and "I (fst p)"
    and step: "\<And>st. I st \<Longrightarrow> apq st \<noteq> [] \<Longrightarrow> I (fst (astar_iter C W st))"
  shows "I st'"
proof -
  have m: "(\<forall>st. I st \<longrightarrow> apq st \<noteq> [] \<longrightarrow> I (fst (astar_iter C W st))) \<longrightarrow> I (fst p) \<longrightarrow> I st'"
    using assms(1)
  proof (induction C W p st' rule: astar_loop.raw_induct)
    case (1 loop C' W' p st')
    show ?case
    proof (intro impI)
      assume s: "\<forall>st. I st \<longrightarrow> apq st \<noteq> [] \<longrightarrow> I (fst (astar_iter C' W' st))"
      assume i: "I (fst p)"
      show "I st'"
      proof (cases "snd p \<or> apq (fst p) = []")
        case True
        with 1(2) have "st' = fst p" by simp
        with i show ?thesis by simp
      next
        case False
        with 1(2) have e: "loop C' W' (astar_iter C' W' (fst p)) = Some st'" by simp
        from False 1(3) have e2: "astar_loop C' W' (astar_iter C' W' (fst p)) = Some st'"
          by (subst (asm) astar_loop.simps) simp
        from False have "apq (fst p) \<noteq> []" by simp
        with s i have i': "I (fst (astar_iter C' W' (fst p)))" by (elim allE impE) assumption
        show ?thesis by (rule mp[OF mp[OF 1(1)[OF e e2] s] i'])
      qed
    qed
  qed (rule assms(1))
  have "\<forall>st. I st \<longrightarrow> apq st \<noteq> [] \<longrightarrow> I (fst (astar_iter C W st))"
    using step by simp
  from mp[OF mp[OF m this] assms(2)] show ?thesis .
qed

subsection \<open>Start and End in the animation steps\<close>

lemma push_step_anchored: "anchored_trace C ss \<Longrightarrow> anchored_trace C (push_step C px py col ss)"
  by (cases ss) (auto simp: anchored_trace_def push_step_def)

lemma push_path_anchored: "anchored_trace C ss \<Longrightarrow> anchored_trace C (push_path C col ss ps)"
  unfolding push_path_def
  by (induction ps arbitrary: ss) (simp_all add: push_step_anchored)

lemma dijkstra_update_anchored:
  "anchored_trace C (steps st) \<Longrightarrow> anchored_trace C (steps (dijkstra_update C cx cy st n nd))"
  by (simp add: dijkstra_update_def Let_def push_step_anchored)

lemma dijkstra_relax_anchored:
  "anchored_trace C (steps st) \<Longrightarrow> anchored_trace C (steps (dijkstra_relax C W cx cy cd st dir))"
  by (simp add: dijkstra_relax_def Let_def dijkstra_update_anchored)

lemma dijkstra_relax_fold_anchored:
  "anchored_trace C (steps st) \<Longrightarrow>
   anchored_trace C (steps (foldl (dijkstra_relax C W cx cy cd) st ds))"
  by (induction ds arbitrary: st) (simp_all add: dijkstra_relax_anchored)

lemma dijkstra_visit_anchored:
  "anchored_trace C (steps st) \<Longrightarrow> anchored_trace C (steps (fst (dijkstra_visit C W node st)))"
  by (simp add: dijkstra_visit_def Let_def dijkstra_relax_fold_anchored push_step_anchored)

lemma dijkstra_iter_anchored:
  "anchored_trace C (steps st) \<Longrightarrow> anchored_trace C (steps (fst (dijkstra_iter C W st)))"
  by (simp add: dijkstra_iter_def Let_def dijkstra_visit_anchored)

lemma astar_update_anchored:
  "anchored_trace C (asteps st) \<Longrightarrow> anchored_trace C (asteps (astar_update C cx cy st n nd))"
  by (simp add: astar_update_def Let_def push_step_anchored)

lemma astar_relax_anchored:
  "anchored_trace C (asteps st) \<Longrightarrow> anchored_trace C (asteps (astar_relax C W cx cy cd st dir))"
  by (simp add: astar_relax_def Let_def astar_update_anchored)

lemma astar_relax_fold_anchored:
  "anchored_trace C (asteps st) \<Longrightarrow>
   anchored_trace C (asteps (foldl (astar_relax C W cx cy cd) st ds))"
  by (induction ds arbitrary: st) (simp_all add: astar_relax_anchored)

lemma astar_visit_anchored:
  "anchored_trace C (asteps st) \<Longrightarrow> anchored_trace C (asteps (fst (astar_visit C W node st)))"
  by (simp add: astar_visit_def Let_def astar_relax_fold_anchored push_step_anchored)

lemma astar_iter_anchored:
  "anchored_trace C (asteps st) \<Longrightarrow> anchored_trace C (asteps (fst (astar_iter C W st)))"
  by (simp add: astar_iter_def Let_def astar_visit_anchored)

lemma reconstruct_anchored:
  "anchored_trace C ss \<Longrightarrow> reconstruct C prv col ss = Some (Inr (ss', r)) \<Longrightarrow> anchored_trace C ss'"
  by (auto simp: reconstruct_def Let_def push_path_anchored split: option.splits sum.splits)

lemma dijkstra_search_anchored:
  assumes "dijkstra_search C W = Some (Inr (ss, r))"
  shows "anchored_trace C ss"
proof -
  from assms obtain st where l: "dijkstra_loop C W (dijkstra_init C, False) = Some st"
    and f: "dijkstra_finish C st = Some (Inr (ss, r))"
    by (auto simp: dijkstra_search_def split: option.splits)
  have "anchored_trace C (steps (dijkstra_init C))"
    by (simp add: dijkstra_init_def anchored_trace_def)
  then have "anchored_trace C (steps (fst (dijkstra_init C, False)))" by simp
  from dijkstra_loop_invariant[where I = "\<lambda>s. anchored_trace C (steps s)", OF l this]
  have "anchored_trace C (steps st)" by (simp add: dijkstra_iter_anchored)
  with f show ?thesis
    by (auto simp: dijkstra_finish_def split: if_splits dest: reconstruct_anchored)
qed

lemma astar_search_anchored:
  assumes "astar_search C W = Some (Inr (ss, r))"
  shows "anchored_trace C ss"
proof -
  from assms obtain st where l: "astar_loop C W (astar_init C, False) = Some st"
    and f: "astar_finish C st = Some (Inr (ss, r))"
    by (auto simp: astar_search_def split: option.splits)
  have "anchored_trace C (asteps (astar_init C))"
    by (simp add: astar_init_def anchored_trace_def)
  then have "anchored_trace C (asteps (fst (astar_init C, False)))" by simp
  from astar_loop_invariant[where I = "\<lambda>s. anchored_trace C (asteps s)", OF l this]
  have "anchored_trace C (asteps st)" by (simp add: astar_iter_anchored)
  with f show ?thesis
    by (auto simp: astar_finish_def split: if_splits dest: reconstruct_anchored)
qed

text \<open>
  C2, as the code has it.  Each handler first pushes one step for the Start cell (lines 201
  and 312, \<open>Cyan\<close>); that is the first step of the sequence.  No later step of a search,
  of either strategy, is on the Start cell or on the End cell.
\<close>

theorem C2_trace_anchors:
  "(dijkstra_search C W = Some (Inr (ss, r)) \<longrightarrow> anchored_trace C ss) \<and>
   (astar_search C W = Some (Inr (ss', r')) \<longrightarrow> anchored_trace C ss')"
  using dijkstra_search_anchored[of C W ss r] astar_search_anchored[of C W ss' r'] by blast

theorem C2_trace_anchors_witness:
  "dijkstra_search (single_config 2 (0, 0) (1, 1)) [[False, False], [False, False]] =
     Some (Inr ([\<lparr>coord = (0, 0), color = Cyan\<rparr>, \<lparr>coord = (1, 0), color = Cyan\<rparr>,
                 \<lparr>coord = (0, 1), color = Cyan\<rparr>, \<lparr>coord = (1, 0), color = Grey\<rparr>,
                 \<lparr>coord = (0, 1), color = Grey\<rparr>], Found [(0, 0), (1, 1)])) \<and>
   anchored_trace (single_config 2 (0, 0) (1, 1))
     [\<lparr>coord = (0, 0), color = Cyan\<rparr>, \<lparr>coord = (1, 0), color = Cyan\<rparr>,
      \<lparr>coord = (0, 1), color = Cyan\<rparr>, \<lparr>coord = (1, 0), color = Grey\<rparr>,
      \<lparr>coord = (0, 1), color = Grey\<rparr>] \<and>
   astar_search (single_config 2 (0, 0) (1, 1)) [[False, False], [False, False]] =
     Some (Inr ([\<lparr>coord = (0, 0), color = Cyan\<rparr>, \<lparr>coord = (1, 0), color = Cyan\<rparr>,
                 \<lparr>coord = (0, 1), color = Cyan\<rparr>], Found [(0, 0), (1, 1)])) \<and>
   anchored_trace (single_config 2 (0, 0) (1, 1))
     [\<lparr>coord = (0, 0), color = Cyan\<rparr>, \<lparr>coord = (1, 0), color = Cyan\<rparr>,
      \<lparr>coord = (0, 1), color = Cyan\<rparr>]"
proof -
  let ?C = "single_config 2 (0, 0) (1, 1)"
  let ?W = "[[False, False], [False, False]]"
  have d: "dijkstra_search ?C ?W =
     Some (Inr ([\<lparr>coord = (0, 0), color = Cyan\<rparr>, \<lparr>coord = (1, 0), color = Cyan\<rparr>,
                 \<lparr>coord = (0, 1), color = Cyan\<rparr>, \<lparr>coord = (1, 0), color = Grey\<rparr>,
                 \<lparr>coord = (0, 1), color = Grey\<rparr>], Found [(0, 0), (1, 1)]))"
    by code_simp
  have a: "astar_search ?C ?W =
     Some (Inr ([\<lparr>coord = (0, 0), color = Cyan\<rparr>, \<lparr>coord = (1, 0), color = Cyan\<rparr>,
                 \<lparr>coord = (0, 1), color = Cyan\<rparr>], Found [(0, 0), (1, 1)]))"
    by code_simp
  from C2_trace_anchors[where C = ?C and W = ?W] d a show ?thesis by blast
qed

text \<open>
  C2 as stated fails: with the program's constants (a 20 x 20 grid, Start (0, 0), End
  (19, 19)) and the three neighbours of Start blocked, the steps of either search are the
  single step on the Start cell.
\<close>

theorem C2_counterexample:
  "(startX main_config, startY main_config) = (0, 0) \<and>
   dijkstra_search main_config (walls 20 [(1, 0), (0, 1), (1, 1)]) =
     Some (Inr ([\<lparr>coord = (0, 0), color = Cyan\<rparr>], NotFound)) \<and>
   astar_search main_config (walls 20 [(1, 0), (0, 1), (1, 1)]) =
     Some (Inr ([\<lparr>coord = (0, 0), color = Cyan\<rparr>], NotFound))"
  by code_simp

subsection \<open>Path reconstruction\<close>













subsection \<open>Repeated runs\<close>

lemma dijkstra_click_again:
  assumes "dijkstra_click C s = Some (Inr s1)"
  shows "dijkstra_click C s1 = Some (Inr s1)"
proof -
  from assms obtain ss r where d: "dijkstra_search C (wall s) = Some (Inr (ss, r))"
    and s1: "s1 = s\<lparr>currentAstarAnimFrame := -1, dijkstraAnimationSteps := ss,
        astarAnimationSteps := [],
        currentMessage := (if r = NotFound then ''Dijkstra: No Path Found!'' else []),
        currentDijkstraAnimFrame := 0\<rparr>"
    by (auto simp: dijkstra_click_def split: option.splits sum.splits prod.splits)
  from s1 have "wall s1 = wall s" by simp
  with d s1 show ?thesis by (simp add: dijkstra_click_def)
qed

lemma astar_click_again:
  assumes "astar_click C s = Some (Inr s1)"
  shows "astar_click C s1 = Some (Inr s1)"
proof -
  from assms obtain ss r where d: "astar_search C (wall s) = Some (Inr (ss, r))"
    and s1: "s1 = s\<lparr>currentDijkstraAnimFrame := -1, astarAnimationSteps := ss,
        dijkstraAnimationSteps := [],
        currentMessage := (if r = NotFound then ''A*: No Path Found!'' else []),
        currentAstarAnimFrame := 0\<rparr>"
    by (auto simp: astar_click_def split: option.splits sum.splits prod.splits)
  from s1 have "wall s1 = wall s" by simp
  with d s1 show ?thesis by (simp add: astar_click_def)
qed

text \<open>
  C8.  Two runs of the same strategy on the same grid, start and end return the same
  path, hence paths of the same total cost, whatever the rest of the application state is
  at the two runs; and a second click on the same button leaves the state the first click
  produced as it is.
\<close>

theorem C8_same_cost_on_rerun:
  "(wall s = wall s' \<and> dijkstra_search C (wall s) = Some (Inr (ss, r))
      \<and> dijkstra_search C (wall s') = Some (Inr (ss', r'))
      \<longrightarrow> result_cost C r = result_cost C r' \<and> r = r' \<and> ss = ss') \<and>
   (wall s = wall s' \<and> astar_search C (wall s) = Some (Inr (ss, r))
      \<and> astar_search C (wall s') = Some (Inr (ss', r'))
      \<longrightarrow> result_cost C r = result_cost C r' \<and> r = r' \<and> ss = ss') \<and>
   (dijkstra_click C s = Some (Inr s1) \<longrightarrow> dijkstra_click C s1 = Some (Inr s1)) \<and>
   (astar_click C s = Some (Inr s1) \<longrightarrow> astar_click C s1 = Some (Inr s1))"
  using dijkstra_click_again[of C s s1] astar_click_again[of C s s1] by auto

theorem C8_same_cost_on_rerun_witness:
  "dijkstra_search (single_config 2 (0, 0) (1, 1)) [[False, False], [False, False]] =
     Some (Inr ([\<lparr>coord = (0, 0), color = Cyan\<rparr>, \<lparr>coord = (1, 0), color = Cyan\<rparr>,
                 \<lparr>coord = (0, 1), color = Cyan\<rparr>, \<lparr>coord = (1, 0), color = Grey\<rparr>,
                 \<lparr>coord = (0, 1), color = Grey\<rparr>], Found [(0, 0), (1, 1)])) \<and>
   astar_search (single_config 2 (0, 0) (1, 1)) [[False, False], [False, False]] =
     Some (Inr ([\<lparr>coord = (0, 0), color = Cyan\<rparr>, \<lparr>coord = (1, 0), color = Cyan\<rparr>,
                 \<lparr>coord = (0, 1), color = Cyan\<rparr>], Found [(0, 0), (1, 1)])) \<and>
   result_cost (single_config 2 (0, 0) (1, 1)) (Found [(0, 0), (1, 1)]) = Some 11863283 \<and>
   dijkstra_click (single_config 2 (0, 0) (1, 1))
     \<lparr>wall = [[False, False], [False, False]],
      dijkstraAnimationSteps = [], astarAnimationSteps = [],
      currentDijkstraAnimFrame = -1, currentAstarAnimFrame = -1, currentMessage = []\<rparr> =
     Some (Inr \<lparr>wall = [[False, False], [False, False]],
       dijkstraAnimationSteps =
         [\<lparr>coord = (0, 0), color = Cyan\<rparr>, \<lparr>coord = (1, 0), color = Cyan\<rparr>,
          \<lparr>coord = (0, 1), color = Cyan\<rparr>, \<lparr>coord = (1, 0), color = Grey\<rparr>,
          \<lparr>coord = (0, 1), color = Grey\<rparr>],
       astarAnimationSteps = [],
       currentDijkstraAnimFrame = 0, currentAstarAnimFrame = -1, currentMessage = []\<rparr>) \<and>
   dijkstra_click (single_config 2 (0, 0) (1, 1))
     \<lparr>wall = [[False, False], [False, False]],
       dijkstraAnimationSteps =
         [\<lparr>coord = (0, 0), color = Cyan\<rparr>, \<lparr>coord = (1, 0), color = Cyan\<rparr>,
          \<lparr>coord = (0, 1), color = Cyan\<rparr>, \<lparr>coord = (1, 0), color = Grey\<rparr>,
          \<lparr>coord = (0, 1), color = Grey\<rparr>],
       astarAnimationSteps = [],
       currentDijkstraAnimFrame = 0, currentAstarAnimFrame = -1, currentMessage = []\<rparr> =
     Some (Inr \<lparr>wall = [[False, False], [False, False]],
       dijkstraAnimationSteps =
         [\<lparr>coord = (0, 0), color = Cyan\<rparr>, \<lparr>coord = (1, 0), color = Cyan\<rparr>,
          \<lparr>coord = (0, 1), color = Cyan\<rparr>, \<lparr>coord = (1, 0), color = Grey\<rparr>,
          \<lparr>coord = (0, 1), color = Grey\<rparr>],
       astarAnimationSteps = [],
       currentDijkstraAnimFrame = 0, currentAstarAnimFrame = -1, currentMessage = []\<rparr>) \<and>
   astar_click (single_config 2 (0, 0) (1, 1))
     \<lparr>wall = [[False, False], [False, False]],
      dijkstraAnimationSteps = [], astarAnimationSteps = [],
      currentDijkstraAnimFrame = -1, currentAstarAnimFrame = -1, currentMessage = []\<rparr> =
     Some (Inr \<lparr>wall = [[False, False], [False, False]],
       dijkstraAnimationSteps = [],
       astarAnimationSteps =
         [\<lparr>coord = (0, 0), color = Cyan\<rparr>, \<lparr>coord = (1, 0), color = Cyan\<rparr>,
          \<lparr>coord = (0, 1), color = Cyan\<rparr>],
       currentDijkstraAnimFrame = -1, currentAstarAnimFrame = 0, currentMessage = []\<rparr>) \<and>
   astar_click (single_config 2 (0, 0) (1, 1))
     \<lparr>wall = [[False, False], [False, False]],
       dijkstraAnimationSteps = [],
       astarAnimationSteps =
         [\<lparr>coord = (0, 0), color = Cyan\<rparr>, \<lparr>coord = (1, 0), color = Cyan\<rparr>,
          \<lparr>coord = (0, 1), color = Cyan\<rparr>],
       currentDijkstraAnimFrame = -1, currentAstarAnimFrame = 0, currentMessage = []\<rparr> =
     Some (Inr \<lparr>wall = [[False, False], [False, False]],
       dijkstraAnimationSteps = [],
       astarAnimationSteps =
         [\<lparr>coord = (0, 0), color = Cyan\<rparr>, \<lparr>coord = (1, 0), color = Cyan\<rparr>,
          \<lparr>coord = (0, 1), color = Cyan\<rparr>],
       currentDijkstraAnimFrame = -1, currentAstarAnimFrame = 0, currentMessage = []\<rparr>)"
proof -
  let ?C = "single_config 2 (0, 0) (1, 1)"
  let ?W = "[[False, False], [False, False]]"
  let ?ds = "[\<lparr>coord = (0, 0), color = Cyan\<rparr>, \<lparr>coord = (1, 0), color = Cyan\<rparr>,
          \<lparr>coord = (0, 1), color = Cyan\<rparr>, \<lparr>coord = (1, 0), color = Grey\<rparr>,
          \<lparr>coord = (0, 1), color = Grey\<rparr>]"
  let ?as = "[\<lparr>coord = (0, 0), color = Cyan\<rparr>, \<lparr>coord = (1, 0), color = Cyan\<rparr>,
          \<lparr>coord = (0, 1), color = Cyan\<rparr>]"
  let ?s = "\<lparr>wall = ?W, dijkstraAnimationSteps = [], astarAnimationSteps = [],
      currentDijkstraAnimFrame = -1, currentAstarAnimFrame = -1, currentMessage = []\<rparr>"
  let ?s1 = "\<lparr>wall = ?W, dijkstraAnimationSteps = ?ds, astarAnimationSteps = [],
       currentDijkstraAnimFrame = 0, currentAstarAnimFrame = -1, currentMessage = []\<rparr>"
  let ?s2 = "\<lparr>wall = ?W, dijkstraAnimationSteps = [], astarAnimationSteps = ?as,
       currentDijkstraAnimFrame = -1, currentAstarAnimFrame = 0, currentMessage = []\<rparr>"
  have d: "dijkstra_search ?C ?W = Some (Inr (?ds, Found [(0, 0), (1, 1)]))" by code_simp
  have a: "astar_search ?C ?W = Some (Inr (?as, Found [(0, 0), (1, 1)]))" by code_simp
  have c: "result_cost ?C (Found [(0, 0), (1, 1)]) = Some 11863283" by code_simp
  have dc: "dijkstra_click ?C ?s = Some (Inr ?s1)" using d by (simp add: dijkstra_click_def)
  have ac: "astar_click ?C ?s = Some (Inr ?s2)" using a by (simp add: astar_click_def)
  note T = C8_same_cost_on_rerun[where C = ?C and s = ?s and s' = ?s
      and ss = ?ds and ss' = ?ds and r = "Found [(0, 0), (1, 1)]" and r' = "Found [(0, 0), (1, 1)]"
      and ?s1.0 = ?s1]
  note U = C8_same_cost_on_rerun[where C = ?C and s = ?s and s' = ?s
      and ss = ?as and ss' = ?as and r = "Found [(0, 0), (1, 1)]" and r' = "Found [(0, 0), (1, 1)]"
      and ?s1.0 = ?s2]
  from T dc have dc2: "dijkstra_click ?C ?s1 = Some (Inr ?s1)" by blast
  from U ac have ac2: "astar_click ?C ?s2 = Some (Inr ?s2)" by blast
  from d a c dc dc2 ac ac2 show ?thesis by blast
qed

subsection \<open>Termination of the search loops\<close>

lemma concat_upd2:
  assumes "in_range2 m r c"
  shows "\<exists>A B. concat m = A @ at2 m r c # B \<and> concat (upd2 m r c v) = A @ v # B"
proof -
  let ?r = "nat r" and ?c = "nat c"
  from assms have r: "?r < length m" and c: "?c < length (m ! ?r)"
    by (simp_all add: in_range2_def)
  let ?row = "m ! ?r"
  have m: "m = take ?r m @ ?row # drop (Suc ?r) m"
    using r by (rule id_take_nth_drop)
  have row: "?row = take ?c ?row @ (?row ! ?c) # drop (Suc ?c) ?row"
    using c by (rule id_take_nth_drop)
  have u: "upd2 m r c v = take ?r m @ (take ?c ?row @ v # drop (Suc ?c) ?row) # drop (Suc ?r) m"
    using r c by (simp add: upd2_def upd_conv_take_nth_drop)
  let ?A = "concat (take ?r m) @ take ?c ?row"
  let ?B = "drop (Suc ?c) ?row @ concat (drop (Suc ?r) m)"
  have "concat m = concat (take ?r m @ ?row # drop (Suc ?r) m)" using m by simp
  also have "\<dots> = concat (take ?r m) @ ?row @ concat (drop (Suc ?r) m)" by simp
  also have "\<dots> = concat (take ?r m) @ (take ?c ?row @ (?row ! ?c) # drop (Suc ?c) ?row) @ concat (drop (Suc ?r) m)"
    using row by simp
  finally have 1: "concat m = ?A @ at2 m r c # ?B" by (simp add: at2_def)
  have 2: "concat (upd2 m r c v) = ?A @ v # ?B" by (subst u) simp
  from 1 2 show ?thesis by blast
qed

lemma upd2_below:
  assumes "in_range2 m r c" and "fless C v (at2 m r c)"
  shows "(upd2 m r c v, m) \<in> matrix_below C"
proof -
  from concat_upd2[OF assms(1), of v] obtain A B where
    a: "concat m = A @ at2 m r c # B" and b: "concat (upd2 m r c v) = A @ v # B" by blast
  have "(A @ v # B, A @ at2 m r c # B) \<in> lex (fless_rel C)"
    using assms(2) by (auto simp: lex_conv fless_rel_def)
  then show ?thesis by (simp add: matrix_below_def a b)
qed

lemma matrix_below_trans:
  "(a, b) \<in> matrix_below C \<Longrightarrow> (b, c) \<in> matrix_below C \<Longrightarrow> (a, c) \<in> matrix_below C"
  by (auto simp: matrix_below_def)

lemma wf_matrix_below: "wf (fless_rel C) \<Longrightarrow> wf (matrix_below C)"
  unfolding matrix_below_def by (intro wf_inv_image wf_trancl wf_lex)

lemma dijkstra_prog_refl: "dijkstra_prog C st st"
  by (simp add: dijkstra_prog_def)

lemma dijkstra_prog_trans:
  "dijkstra_prog C st2 st1 \<Longrightarrow> dijkstra_prog C st1 st \<Longrightarrow> dijkstra_prog C st2 st"
  unfolding dijkstra_prog_def using matrix_below_trans[of _ _ C] by metis

lemma dijkstra_update_prog:
  assumes "square (GRID_SIZE C) (dist st)" and "in_grid C (fst n) (snd n)"
  shows "dijkstra_prog C (dijkstra_update C cx cy st n nd) st
    \<and> square (GRID_SIZE C) (dist (dijkstra_update C cx cy st n nd))"
proof (cases "fless C nd (at2 (dist st) (snd n) (fst n))")
  case True
  from assms have "in_range2 (dist st) (snd n) (fst n)"
    by (simp add: square_in_range2 in_grid_def)
  from upd2_below[OF this True] assms(1) True show ?thesis
    by (simp add: dijkstra_update_def Let_def dijkstra_prog_def square_upd2)
next
  case False
  with assms(1) show ?thesis by (simp add: dijkstra_update_def Let_def dijkstra_prog_def)
qed

lemma dijkstra_relax_prog:
  assumes "square (GRID_SIZE C) (dist st)"
  shows "dijkstra_prog C (dijkstra_relax C W cx cy cd st dir) st
    \<and> square (GRID_SIZE C) (dist (dijkstra_relax C W cx cy cd st dir))"
  using assms dijkstra_update_prog[OF assms, of "(cx + fst dir, cy + snd dir)" cx cy]
  by (simp add: dijkstra_relax_def Let_def dijkstra_prog_refl)

lemma dijkstra_relax_fold_prog:
  "square (GRID_SIZE C) (dist st) \<Longrightarrow>
   dijkstra_prog C (foldl (dijkstra_relax C W cx cy cd) st ds) st
    \<and> square (GRID_SIZE C) (dist (foldl (dijkstra_relax C W cx cy cd) st ds))"
proof (induction ds arbitrary: st)
  case Nil
  then show ?case by (simp add: dijkstra_prog_refl)
next
  case (Cons d ds)
  note r = dijkstra_relax_prog[OF Cons.prems, of W cx cy cd d]
  from Cons.IH[OF conjunct2[OF r]] conjunct1[OF r] show ?case
    by (auto intro: dijkstra_prog_trans)
qed

lemma dijkstra_visit_prog:
  assumes "square (GRID_SIZE C) (dist st)"
  shows "dijkstra_prog C (fst (dijkstra_visit C W node st)) st
    \<and> square (GRID_SIZE C) (dist (fst (dijkstra_visit C W node st)))"
proof -
  let ?st2 = "st\<lparr>steps := push_step C (node_x node) (node_y node) Grey (steps st)\<rparr>"
  have s2: "square (GRID_SIZE C) (dist ?st2)" using assms by simp
  have p2: "dijkstra_prog C ?st2 st" by (simp add: dijkstra_prog_def)
  note f = dijkstra_relax_fold_prog[OF s2, of W "node_x node" "node_y node" "node_d node" directions]
  from conjunct1[OF f] p2
  have "dijkstra_prog C (foldl (dijkstra_relax C W (node_x node) (node_y node) (node_d node)) ?st2 directions) st"
    by (rule dijkstra_prog_trans)
  with conjunct2[OF f] assms p2 show ?thesis
    by (simp add: dijkstra_visit_def Let_def dijkstra_prog_refl)
qed

lemma dijkstra_iter_less:
  assumes "pq_contract C" and "pq st \<noteq> []" and "square (GRID_SIZE C) (dist st)"
  shows "(fst (dijkstra_iter C W st), st) \<in> dijkstra_less C
    \<and> square (GRID_SIZE C) (dist (fst (dijkstra_iter C W st)))"
proof -
  let ?i = "pq_top_index C (map node_d (pq st))"
  let ?st1 = "st\<lparr>pq := take ?i (pq st) @ drop (Suc ?i) (pq st)\<rparr>"
  from assms(1,2) have i: "?i < length (pq st)"
    unfolding pq_contract_def by (metis length_map map_is_Nil_conv)
  then have l: "length (pq ?st1) < length (pq st)" by simp
  have d: "dist ?st1 = dist st" by simp
  from assms(3) have sq: "square (GRID_SIZE C) (dist ?st1)" by simp
  note v = dijkstra_visit_prog[OF sq, of W "pq st ! ?i"]
  have e: "dijkstra_iter C W st = dijkstra_visit C W (pq st ! ?i) ?st1"
    by (simp add: dijkstra_iter_def Let_def)
  from conjunct1[OF v] l d have "(fst (dijkstra_visit C W (pq st ! ?i) ?st1), st) \<in> dijkstra_less C"
    unfolding dijkstra_prog_def dijkstra_less_def by auto
  with conjunct2[OF v] e show ?thesis by simp
qed

lemma wf_dijkstra_less: "wf (fless_rel C) \<Longrightarrow> wf (dijkstra_less C)"
  unfolding dijkstra_less_def by (intro wf_inv_image wf_lex_prod wf_matrix_below wf_less_than)

lemma dijkstra_loop_terminates:
  assumes c: "pq_contract C" and w: "wf (fless_rel C)"
  shows "square (GRID_SIZE C) (dist st) \<Longrightarrow> \<exists>st'. dijkstra_loop C W (st, b) = Some st'"
proof (induction st arbitrary: b rule: wf_induct_rule[OF wf_dijkstra_less[OF w]])
  case (1 st)
  show ?case
  proof (cases "b \<or> pq st = []")
    case True
    then show ?thesis by (subst dijkstra_loop.simps) simp
  next
    case False
    then have ne: "pq st \<noteq> []" by simp
    note il = dijkstra_iter_less[OF c ne 1(2), of W]
    obtain st1 b1 where it: "dijkstra_iter C W st = (st1, b1)" by (cases "dijkstra_iter C W st")
    with il have "(st1, st) \<in> dijkstra_less C" "square (GRID_SIZE C) (dist st1)" by simp_all
    from 1(1)[OF this] obtain st' where "dijkstra_loop C W (st1, b1) = Some st'" by blast
    with False it show ?thesis by (subst dijkstra_loop.simps) simp
  qed
qed

lemma astar_prog_refl: "astar_prog C st st"
  by (simp add: astar_prog_def)

lemma astar_prog_trans:
  "astar_prog C st2 st1 \<Longrightarrow> astar_prog C st1 st \<Longrightarrow> astar_prog C st2 st"
  unfolding astar_prog_def using matrix_below_trans[of _ _ C] by metis

lemma astar_update_prog:
  assumes "square (GRID_SIZE C) (g_cost st)" and "in_grid C (fst n) (snd n)"
  shows "astar_prog C (astar_update C cx cy st n nd) st
    \<and> square (GRID_SIZE C) (g_cost (astar_update C cx cy st n nd))"
proof (cases "fless C nd (at2 (g_cost st) (snd n) (fst n))")
  case True
  from assms have "in_range2 (g_cost st) (snd n) (fst n)"
    by (simp add: square_in_range2 in_grid_def)
  from upd2_below[OF this True] assms(1) True show ?thesis
    by (simp add: astar_update_def Let_def astar_prog_def square_upd2)
next
  case False
  with assms(1) show ?thesis by (simp add: astar_update_def Let_def astar_prog_def)
qed

lemma astar_relax_prog:
  assumes "square (GRID_SIZE C) (g_cost st)"
  shows "astar_prog C (astar_relax C W cx cy cd st dir) st
    \<and> square (GRID_SIZE C) (g_cost (astar_relax C W cx cy cd st dir))"
  using assms astar_update_prog[OF assms, of "(cx + fst dir, cy + snd dir)" cx cy]
  by (simp add: astar_relax_def Let_def astar_prog_refl)

lemma astar_relax_fold_prog:
  "square (GRID_SIZE C) (g_cost st) \<Longrightarrow>
   astar_prog C (foldl (astar_relax C W cx cy cd) st ds) st
    \<and> square (GRID_SIZE C) (g_cost (foldl (astar_relax C W cx cy cd) st ds))"
proof (induction ds arbitrary: st)
  case Nil
  then show ?case by (simp add: astar_prog_refl)
next
  case (Cons d ds)
  note r = astar_relax_prog[OF Cons.prems, of W cx cy cd d]
  from Cons.IH[OF conjunct2[OF r]] conjunct1[OF r] show ?case
    by (auto intro: astar_prog_trans)
qed

lemma astar_visit_prog:
  assumes "square (GRID_SIZE C) (g_cost st)"
  shows "astar_prog C (fst (astar_visit C W node st)) st
    \<and> square (GRID_SIZE C) (g_cost (fst (astar_visit C W node st)))"
proof -
  let ?st2 = "st\<lparr>asteps := push_step C (anode_x node) (anode_y node) Grey (asteps st)\<rparr>"
  have s2: "square (GRID_SIZE C) (g_cost ?st2)" using assms by simp
  have p2: "astar_prog C ?st2 st" by (simp add: astar_prog_def)
  note f = astar_relax_fold_prog[OF s2, of W "anode_x node" "anode_y node" "anode_g node" directions]
  from conjunct1[OF f] p2
  have "astar_prog C (foldl (astar_relax C W (anode_x node) (anode_y node) (anode_g node)) ?st2 directions) st"
    by (rule astar_prog_trans)
  with conjunct2[OF f] assms p2 show ?thesis
    by (simp add: astar_visit_def Let_def astar_prog_refl)
qed

lemma astar_iter_less:
  assumes "pq_contract C" and "apq st \<noteq> []" and "square (GRID_SIZE C) (g_cost st)"
  shows "(fst (astar_iter C W st), st) \<in> astar_less C
    \<and> square (GRID_SIZE C) (g_cost (fst (astar_iter C W st)))"
proof -
  let ?i = "pq_top_index C (map anode_f (apq st))"
  let ?st1 = "st\<lparr>apq := take ?i (apq st) @ drop (Suc ?i) (apq st)\<rparr>"
  from assms(1,2) have i: "?i < length (apq st)"
    unfolding pq_contract_def by (metis length_map map_is_Nil_conv)
  then have l: "length (apq ?st1) < length (apq st)" by simp
  have d: "g_cost ?st1 = g_cost st" by simp
  from assms(3) have sq: "square (GRID_SIZE C) (g_cost ?st1)" by simp
  note v = astar_visit_prog[OF sq, of W "apq st ! ?i"]
  have e: "astar_iter C W st = astar_visit C W (apq st ! ?i) ?st1"
    by (simp add: astar_iter_def Let_def)
  from conjunct1[OF v] l d have "(fst (astar_visit C W (apq st ! ?i) ?st1), st) \<in> astar_less C"
    unfolding astar_prog_def astar_less_def by auto
  with conjunct2[OF v] e show ?thesis by simp
qed

lemma wf_astar_less: "wf (fless_rel C) \<Longrightarrow> wf (astar_less C)"
  unfolding astar_less_def by (intro wf_inv_image wf_lex_prod wf_matrix_below wf_less_than)

lemma astar_loop_terminates:
  assumes c: "pq_contract C" and w: "wf (fless_rel C)"
  shows "square (GRID_SIZE C) (g_cost st) \<Longrightarrow> \<exists>st'. astar_loop C W (st, b) = Some st'"
proof (induction st arbitrary: b rule: wf_induct_rule[OF wf_astar_less[OF w]])
  case (1 st)
  show ?case
  proof (cases "b \<or> apq st = []")
    case True
    then show ?thesis by (subst astar_loop.simps) simp
  next
    case False
    then have ne: "apq st \<noteq> []" by simp
    note il = astar_iter_less[OF c ne 1(2), of W]
    obtain st1 b1 where it: "astar_iter C W st = (st1, b1)" by (cases "astar_iter C W st")
    with il have "(st1, st) \<in> astar_less C" "square (GRID_SIZE C) (g_cost st1)" by simp_all
    from 1(1)[OF this] obtain st' where "astar_loop C W (st1, b1) = Some st'" by blast
    with False it show ?thesis by (subst astar_loop.simps) simp
  qed
qed

subsection \<open>An enclosed End\<close>

lemma directions_neg: "dir \<in> set directions \<Longrightarrow> (- fst dir, - snd dir) \<in> set directions"
  unfolding set_directions by (elim insertE emptyE; simp)

lemma enclosed_end_neighbor:
  assumes e: "enclosed_end C W" and d: "dir \<in> set directions"
    and c: "in_grid C cx cy" and n: "cx + fst dir = endX C" "cy + snd dir = endY C"
  shows "at2 W cy cx"
proof -
  from directions_neg[OF d] e
  have "in_grid C (endX C + fst (- fst dir, - snd dir)) (endY C + snd (- fst dir, - snd dir))
      \<longrightarrow> at2 W (endY C + snd (- fst dir, - snd dir)) (endX C + fst (- fst dir, - snd dir))"
    unfolding enclosed_end_def list_all_iff by (rule bspec[rotated])
  moreover have "endX C + fst (- fst dir, - snd dir) = cx" "endY C + snd (- fst dir, - snd dir) = cy"
    using n by simp_all
  ultimately show ?thesis using c by simp
qed

lemma push_step_no_path:
  "no_path_steps ss \<Longrightarrow> col \<noteq> Green \<Longrightarrow> col \<noteq> Magenta \<Longrightarrow> no_path_steps (push_step C px py col ss)"
  by (simp add: no_path_steps_def push_step_def)

lemma dijkstra_update_sealed:
  assumes s: "dijkstra_sealed C W st" and n: "in_grid C (fst n) (snd n)" "\<not> at2 W (snd n) (fst n)"
    and ne: "n \<noteq> (endX C, endY C)" and v: "in_grid C (endX C) (endY C)"
  shows "dijkstra_sealed C W (dijkstra_update C cx cy st n nd)"
proof (cases "fless C nd (at2 (dist st) (snd n) (fst n))")
  case False
  with s show ?thesis by (simp add: dijkstra_update_def Let_def)
next
  case True
  from n(1) v have nn: "0 \<le> snd n" "0 \<le> fst n" "0 \<le> endY C" "0 \<le> endX C"
    by (simp_all add: in_grid_def)
  from ne have "snd n \<noteq> endY C \<or> fst n \<noteq> endX C" by (cases n) auto
  from at2_upd2_other[OF nn this]
  have "at2 (upd2 (dist st) (snd n) (fst n) nd) (endY C) (endX C) = at2 (dist st) (endY C) (endX C)" .
  with s n True show ?thesis
    by (simp add: dijkstra_update_def Let_def dijkstra_sealed_def square_upd2 push_step_no_path)
qed

lemma dijkstra_relax_sealed:
  assumes s: "dijkstra_sealed C W st" and e: "enclosed_end C W" and d: "dir \<in> set directions"
    and c: "in_grid C cx cy" "\<not> at2 W cy cx" and v: "in_grid C (endX C) (endY C)"
  shows "dijkstra_sealed C W (dijkstra_relax C W cx cy cd st dir)"
proof (cases "in_grid C (cx + fst dir) (cy + snd dir) \<and> \<not> at2 W (cy + snd dir) (cx + fst dir)")
  case False
  with s show ?thesis by (auto simp: dijkstra_relax_def Let_def)
next
  case True
  have "(cx + fst dir, cy + snd dir) \<noteq> (endX C, endY C)"
    using enclosed_end_neighbor[OF e d c(1)] c(2) by auto
  from dijkstra_update_sealed[OF s _ _ this v] True show ?thesis
    by (simp add: dijkstra_relax_def Let_def)
qed

lemma dijkstra_relax_fold_sealed:
  assumes e: "enclosed_end C W" and c: "in_grid C cx cy" "\<not> at2 W cy cx"
    and v: "in_grid C (endX C) (endY C)"
  shows "dijkstra_sealed C W st \<Longrightarrow> set ds \<subseteq> set directions \<Longrightarrow>
    dijkstra_sealed C W (foldl (dijkstra_relax C W cx cy cd) st ds)"
proof (induction ds arbitrary: st)
  case Nil
  then show ?case by simp
next
  case (Cons d ds)
  from Cons.prems(2) have d: "d \<in> set directions" and ds: "set ds \<subseteq> set directions" by simp_all
  from dijkstra_relax_sealed[OF Cons.prems(1) e d c v]
  have "dijkstra_sealed C W (dijkstra_relax C W cx cy cd st d)" .
  from Cons.IH[OF this ds] show ?case by simp
qed

lemma dijkstra_visit_sealed:
  assumes e: "enclosed_end C W" and c: "in_grid C (node_x node) (node_y node)"
    "\<not> at2 W (node_y node) (node_x node)"
    and v: "in_grid C (endX C) (endY C)" and s: "dijkstra_sealed C W st"
  shows "dijkstra_sealed C W (fst (dijkstra_visit C W node st))"
proof -
  let ?st2 = "st\<lparr>steps := push_step C (node_x node) (node_y node) Grey (steps st)\<rparr>"
  from s have s2: "dijkstra_sealed C W ?st2"
    by (simp add: dijkstra_sealed_def push_step_no_path)
  from dijkstra_relax_fold_sealed[OF e c v s2 subset_refl, of "node_d node"] s s2
  show ?thesis
    by (simp add: dijkstra_visit_def Let_def)
qed

lemma dijkstra_iter_sealed:
  assumes e: "enclosed_end C W" and p: "pq_contract C" and v: "in_grid C (endX C) (endY C)"
    and s: "dijkstra_sealed C W st" and ne: "pq st \<noteq> []"
  shows "dijkstra_sealed C W (fst (dijkstra_iter C W st))"
proof -
  let ?i = "pq_top_index C (map node_d (pq st))"
  let ?st1 = "st\<lparr>pq := take ?i (pq st) @ drop (Suc ?i) (pq st)\<rparr>"
  from p ne have i: "?i < length (pq st)"
    unfolding pq_contract_def by (metis length_map map_is_Nil_conv)
  then have m: "pq st ! ?i \<in> set (pq st)" by simp
  with s have c: "in_grid C (node_x (pq st ! ?i)) (node_y (pq st ! ?i))"
    "\<not> at2 W (node_y (pq st ! ?i)) (node_x (pq st ! ?i))"
    by (auto simp: dijkstra_sealed_def list_all_iff)
  have "set (take ?i (pq st) @ drop (Suc ?i) (pq st)) \<subseteq> set (pq st)"
    using set_take_subset set_drop_subset by fastforce
  with s have s1: "dijkstra_sealed C W ?st1"
    by (auto simp: dijkstra_sealed_def list_all_iff)
  from dijkstra_visit_sealed[OF e c v s1] show ?thesis
    by (simp add: dijkstra_iter_def Let_def)
qed

lemma dijkstra_init_sealed:
  assumes v: "valid_config C" and a: "anchors_free C W" and ne: "\<not> is_start C (endX C) (endY C)"
  shows "dijkstra_sealed C W (dijkstra_init C)"
proof -
  from v have g: "in_grid C (startX C) (startY C)" "in_grid C (endX C) (endY C)"
    by (simp_all add: valid_config_def)
  then have nn: "0 \<le> startY C" "0 \<le> startX C" "0 \<le> endY C" "0 \<le> endX C"
    by (simp_all add: in_grid_def)
  from ne have "startY C \<noteq> endY C \<or> startX C \<noteq> endX C" by (auto simp: is_start_def)
  from at2_upd2_other[OF nn this, of "matrix (GRID_SIZE C) (FLT_MAX C)" "fzero C"]
  have "at2 (upd2 (matrix (GRID_SIZE C) (FLT_MAX C)) (startY C) (startX C) (fzero C)) (endY C) (endX C)
      = FLT_MAX C"
    using g(2) by (simp add: at2_matrix in_grid_def)
  with g a show ?thesis
    by (simp add: dijkstra_sealed_def dijkstra_init_def square_upd2 square_matrix
        anchors_free_def no_path_steps_def)
qed

lemma dijkstra_search_sealed:
  assumes v: "valid_config C" and a: "anchors_free C W" and p: "pq_contract C"
    and w: "wf (fless_rel C)" and e: "enclosed_end C W" and ne: "\<not> is_start C (endX C) (endY C)"
  shows "\<exists>ss. dijkstra_search C W = Some (Inr (ss, NotFound)) \<and> no_path_steps ss"
proof -
  note i = dijkstra_init_sealed[OF v a ne]
  from v have g: "in_grid C (endX C) (endY C)" by (simp add: valid_config_def)
  from i have "square (GRID_SIZE C) (dist (dijkstra_init C))" by (simp add: dijkstra_sealed_def)
  from dijkstra_loop_terminates[OF p w this] obtain st where
    l: "dijkstra_loop C W (dijkstra_init C, False) = Some st" by blast
  from i have "dijkstra_sealed C W (fst (dijkstra_init C, False))" by simp
  from dijkstra_loop_invariant[where I = "dijkstra_sealed C W", OF l this]
  have s: "dijkstra_sealed C W st" using dijkstra_iter_sealed[OF e p g] by blast
  from w have "\<not> fless C (FLT_MAX C) (FLT_MAX C)"
    using wf_not_refl[of "fless_rel C" "FLT_MAX C"] by (simp add: fless_rel_def)
  with s have "dijkstra_finish C st = Some (Inr (steps st, NotFound))"
    by (simp add: dijkstra_finish_def dijkstra_sealed_def)
  with l s show ?thesis by (simp add: dijkstra_search_def dijkstra_sealed_def)
qed

lemma astar_update_sealed:
  assumes s: "astar_sealed C W st" and n: "in_grid C (fst n) (snd n)" "\<not> at2 W (snd n) (fst n)"
    and ne: "n \<noteq> (endX C, endY C)" and v: "in_grid C (endX C) (endY C)"
  shows "astar_sealed C W (astar_update C cx cy st n nd)"
proof (cases "fless C nd (at2 (g_cost st) (snd n) (fst n))")
  case False
  with s show ?thesis by (simp add: astar_update_def Let_def)
next
  case True
  from n(1) v have nn: "0 \<le> snd n" "0 \<le> fst n" "0 \<le> endY C" "0 \<le> endX C"
    by (simp_all add: in_grid_def)
  from ne have "snd n \<noteq> endY C \<or> fst n \<noteq> endX C" by (cases n) auto
  from at2_upd2_other[OF nn this]
  have "at2 (upd2 (g_cost st) (snd n) (fst n) nd) (endY C) (endX C) = at2 (g_cost st) (endY C) (endX C)" .
  with s n True show ?thesis
    by (simp add: astar_update_def Let_def astar_sealed_def square_upd2 push_step_no_path)
qed

lemma astar_relax_sealed:
  assumes s: "astar_sealed C W st" and e: "enclosed_end C W" and d: "dir \<in> set directions"
    and c: "in_grid C cx cy" "\<not> at2 W cy cx" and v: "in_grid C (endX C) (endY C)"
  shows "astar_sealed C W (astar_relax C W cx cy cd st dir)"
proof (cases "in_grid C (cx + fst dir) (cy + snd dir) \<and> \<not> at2 W (cy + snd dir) (cx + fst dir)")
  case False
  with s show ?thesis by (auto simp: astar_relax_def Let_def)
next
  case True
  have "(cx + fst dir, cy + snd dir) \<noteq> (endX C, endY C)"
    using enclosed_end_neighbor[OF e d c(1)] c(2) by auto
  from astar_update_sealed[OF s _ _ this v] True show ?thesis
    by (simp add: astar_relax_def Let_def)
qed

lemma astar_relax_fold_sealed:
  assumes e: "enclosed_end C W" and c: "in_grid C cx cy" "\<not> at2 W cy cx"
    and v: "in_grid C (endX C) (endY C)"
  shows "astar_sealed C W st \<Longrightarrow> set ds \<subseteq> set directions \<Longrightarrow>
    astar_sealed C W (foldl (astar_relax C W cx cy cd) st ds)"
proof (induction ds arbitrary: st)
  case Nil
  then show ?case by simp
next
  case (Cons d ds)
  from Cons.prems(2) have d: "d \<in> set directions" and ds: "set ds \<subseteq> set directions" by simp_all
  from astar_relax_sealed[OF Cons.prems(1) e d c v]
  have "astar_sealed C W (astar_relax C W cx cy cd st d)" .
  from Cons.IH[OF this ds] show ?case by simp
qed

lemma astar_visit_sealed:
  assumes e: "enclosed_end C W" and c: "in_grid C (anode_x node) (anode_y node)"
    "\<not> at2 W (anode_y node) (anode_x node)"
    and v: "in_grid C (endX C) (endY C)" and s: "astar_sealed C W st"
  shows "astar_sealed C W (fst (astar_visit C W node st))"
proof -
  let ?st2 = "st\<lparr>asteps := push_step C (anode_x node) (anode_y node) Grey (asteps st)\<rparr>"
  from s have s2: "astar_sealed C W ?st2"
    by (simp add: astar_sealed_def push_step_no_path)
  from astar_relax_fold_sealed[OF e c v s2 subset_refl, of "anode_g node"] s s2
  show ?thesis
    by (simp add: astar_visit_def Let_def)
qed

lemma astar_iter_sealed:
  assumes e: "enclosed_end C W" and p: "pq_contract C" and v: "in_grid C (endX C) (endY C)"
    and s: "astar_sealed C W st" and ne: "apq st \<noteq> []"
  shows "astar_sealed C W (fst (astar_iter C W st))"
proof -
  let ?i = "pq_top_index C (map anode_f (apq st))"
  let ?st1 = "st\<lparr>apq := take ?i (apq st) @ drop (Suc ?i) (apq st)\<rparr>"
  from p ne have i: "?i < length (apq st)"
    unfolding pq_contract_def by (metis length_map map_is_Nil_conv)
  then have m: "apq st ! ?i \<in> set (apq st)" by simp
  with s have c: "in_grid C (anode_x (apq st ! ?i)) (anode_y (apq st ! ?i))"
    "\<not> at2 W (anode_y (apq st ! ?i)) (anode_x (apq st ! ?i))"
    by (auto simp: astar_sealed_def list_all_iff)
  have "set (take ?i (apq st) @ drop (Suc ?i) (apq st)) \<subseteq> set (apq st)"
    using set_take_subset set_drop_subset by fastforce
  with s have s1: "astar_sealed C W ?st1"
    by (auto simp: astar_sealed_def list_all_iff)
  from astar_visit_sealed[OF e c v s1] show ?thesis
    by (simp add: astar_iter_def Let_def)
qed

lemma astar_init_sealed:
  assumes v: "valid_config C" and a: "anchors_free C W" and ne: "\<not> is_start C (endX C) (endY C)"
  shows "astar_sealed C W (astar_init C)"
proof -
  from v have g: "in_grid C (startX C) (startY C)" "in_grid C (endX C) (endY C)"
    by (simp_all add: valid_config_def)
  then have nn: "0 \<le> startY C" "0 \<le> startX C" "0 \<le> endY C" "0 \<le> endX C"
    by (simp_all add: in_grid_def)
  from ne have "startY C \<noteq> endY C \<or> startX C \<noteq> endX C" by (auto simp: is_start_def)
  from at2_upd2_other[OF nn this, of "matrix (GRID_SIZE C) (FLT_MAX C)" "fzero C"]
  have "at2 (upd2 (matrix (GRID_SIZE C) (FLT_MAX C)) (startY C) (startX C) (fzero C)) (endY C) (endX C)
      = FLT_MAX C"
    using g(2) by (simp add: at2_matrix in_grid_def)
  with g a show ?thesis
    by (simp add: astar_sealed_def astar_init_def square_upd2 square_matrix
        anchors_free_def no_path_steps_def)
qed

lemma astar_search_sealed:
  assumes v: "valid_config C" and a: "anchors_free C W" and p: "pq_contract C"
    and w: "wf (fless_rel C)" and e: "enclosed_end C W" and ne: "\<not> is_start C (endX C) (endY C)"
  shows "\<exists>ss. astar_search C W = Some (Inr (ss, NotFound)) \<and> no_path_steps ss"
proof -
  note i = astar_init_sealed[OF v a ne]
  from v have g: "in_grid C (endX C) (endY C)" by (simp add: valid_config_def)
  from i have "square (GRID_SIZE C) (g_cost (astar_init C))" by (simp add: astar_sealed_def)
  from astar_loop_terminates[OF p w this] obtain st where
    l: "astar_loop C W (astar_init C, False) = Some st" by blast
  from i have "astar_sealed C W (fst (astar_init C, False))" by simp
  from astar_loop_invariant[where I = "astar_sealed C W", OF l this]
  have s: "astar_sealed C W st" using astar_iter_sealed[OF e p g] by blast
  from w have "\<not> fless C (FLT_MAX C) (FLT_MAX C)"
    using wf_not_refl[of "fless_rel C" "FLT_MAX C"] by (simp add: fless_rel_def)
  with s have "astar_finish C st = Some (Inr (asteps st, NotFound))"
    by (simp add: astar_finish_def astar_sealed_def)
  with l s show ?thesis by (simp add: astar_search_def astar_sealed_def)
qed

subsection \<open>The concrete instance meets the requirements\<close>

lemma first_min_less: "ks \<noteq> [] \<Longrightarrow> first_min ks < length ks"
  by (induction ks rule: first_min.induct) (simp_all add: Let_def)

lemma single_pq_contract: "pq_contract (single_config n s e)"
  by (simp add: pq_contract_def single_config_def first_min_less)

lemma single_wf: "wf (fless_rel (single_config n s e))"
proof -
  have "fless_rel (single_config n s e) = {(a, b). a < b}"
    by (simp add: fless_rel_def single_config_def)
  then show ?thesis using wf_less by simp
qed

subsection \<open>Found and NotFound\<close>

lemma dijkstra_search_found_iff:
  assumes "dijkstra_search C W = Some (Inr (ss, r))"
  shows "\<exists>st. dijkstra_loop C W (dijkstra_init C, False) = Some st \<and>
    ((\<exists>p. r = Found p) \<longleftrightarrow> fless C (at2 (dist st) (endY C) (endX C)) (FLT_MAX C))"
proof -
  from assms obtain st where l: "dijkstra_loop C W (dijkstra_init C, False) = Some st"
    and f: "dijkstra_finish C st = Some (Inr (ss, r))"
    by (auto simp: dijkstra_search_def split: option.splits)
  from f have "(\<exists>p. r = Found p) \<longleftrightarrow> fless C (at2 (dist st) (endY C) (endX C)) (FLT_MAX C)"
    by (auto simp: dijkstra_finish_def reconstruct_def Let_def
        split: if_splits option.splits sum.splits)
  with l show ?thesis by blast
qed

lemma astar_search_found_iff:
  assumes "astar_search C W = Some (Inr (ss, r))"
  shows "\<exists>st. astar_loop C W (astar_init C, False) = Some st \<and>
    ((\<exists>p. r = Found p) \<longleftrightarrow> fless C (at2 (g_cost st) (endY C) (endX C)) (FLT_MAX C))"
proof -
  from assms obtain st where l: "astar_loop C W (astar_init C, False) = Some st"
    and f: "astar_finish C st = Some (Inr (ss, r))"
    by (auto simp: astar_search_def split: option.splits)
  from f have "(\<exists>p. r = Found p) \<longleftrightarrow> fless C (at2 (g_cost st) (endY C) (endX C)) (FLT_MAX C)"
    by (auto simp: astar_finish_def reconstruct_def Let_def
        split: if_splits option.splits sum.splits)
  with l show ?thesis by blast
qed

text \<open>
  C3.  When a search returns, its result is \<open>Found\<close> exactly when the cost recorded at
  End in the state in which the loop was left is below \<open>max()\<close>.  When End is not Start
  and every neighbour of End in the grid is blocked, both searches return \<open>NotFound\<close>,
  with no step in a path colour.  (The configuration is one of the program's: Start and
  End are unblocked cells of the grid, \<open>top\<close> returns a pending entry, and \<open><\<close> on the
  costs has no infinite descending chain.)
\<close>

theorem C3_found_iff_finite:
  assumes "valid_config C" and "anchors_free C W" and "pq_contract C" and "wf (fless_rel C)"
  shows "(dijkstra_search C W = Some (Inr (ss, r)) \<longrightarrow>
      (\<exists>st. dijkstra_loop C W (dijkstra_init C, False) = Some st \<and>
        ((\<exists>p. r = Found p) \<longleftrightarrow> fless C (at2 (dist st) (endY C) (endX C)) (FLT_MAX C)))) \<and>
    (astar_search C W = Some (Inr (ss', r')) \<longrightarrow>
      (\<exists>st. astar_loop C W (astar_init C, False) = Some st \<and>
        ((\<exists>p. r' = Found p) \<longleftrightarrow> fless C (at2 (g_cost st) (endY C) (endX C)) (FLT_MAX C)))) \<and>
    (enclosed_end C W \<and> \<not> is_start C (endX C) (endY C) \<longrightarrow>
      (\<exists>ds. dijkstra_search C W = Some (Inr (ds, NotFound)) \<and> no_path_steps ds) \<and>
      (\<exists>as. astar_search C W = Some (Inr (as, NotFound)) \<and> no_path_steps as))"
  using dijkstra_search_found_iff[of C W ss r] astar_search_found_iff[of C W ss' r']
    dijkstra_search_sealed[OF assms] astar_search_sealed[OF assms]
  by blast

theorem C3_found_iff_finite_witness:
  "valid_config (single_config 3 (0, 0) (2, 2)) \<and>
   anchors_free (single_config 3 (0, 0) (2, 2))
     [[False, True, False], [True, True, True], [False, True, False]] \<and>
   pq_contract (single_config 3 (0, 0) (2, 2)) \<and>
   wf (fless_rel (single_config 3 (0, 0) (2, 2))) \<and>
   enclosed_end (single_config 3 (0, 0) (2, 2))
     [[False, True, False], [True, True, True], [False, True, False]] \<and>
   \<not> is_start (single_config 3 (0, 0) (2, 2)) (endX (single_config 3 (0, 0) (2, 2)))
        (endY (single_config 3 (0, 0) (2, 2))) \<and>
   dijkstra_search (single_config 3 (0, 0) (2, 2))
     [[False, True, False], [True, True, True], [False, True, False]] =
     Some (Inr ([\<lparr>coord = (0, 0), color = Cyan\<rparr>], NotFound)) \<and>
   astar_search (single_config 3 (0, 0) (2, 2))
     [[False, True, False], [True, True, True], [False, True, False]] =
     Some (Inr ([\<lparr>coord = (0, 0), color = Cyan\<rparr>], NotFound)) \<and>
   (\<exists>st. dijkstra_loop (single_config 3 (0, 0) (2, 2))
          [[False, True, False], [True, True, True], [False, True, False]]
          (dijkstra_init (single_config 3 (0, 0) (2, 2)), False) = Some st \<and>
        \<not> fless (single_config 3 (0, 0) (2, 2)) (at2 (dist st) 2 2)
            (FLT_MAX (single_config 3 (0, 0) (2, 2)))) \<and>
   (\<exists>st. astar_loop (single_config 3 (0, 0) (2, 2))
          [[False, True, False], [True, True, True], [False, True, False]]
          (astar_init (single_config 3 (0, 0) (2, 2)), False) = Some st \<and>
        \<not> fless (single_config 3 (0, 0) (2, 2)) (at2 (g_cost st) 2 2)
            (FLT_MAX (single_config 3 (0, 0) (2, 2)))) \<and>
   dijkstra_search (single_config 2 (0, 0) (1, 1)) [[False, False], [False, False]] =
     Some (Inr ([\<lparr>coord = (0, 0), color = Cyan\<rparr>, \<lparr>coord = (1, 0), color = Cyan\<rparr>,
                 \<lparr>coord = (0, 1), color = Cyan\<rparr>, \<lparr>coord = (1, 0), color = Grey\<rparr>,
                 \<lparr>coord = (0, 1), color = Grey\<rparr>], Found [(0, 0), (1, 1)])) \<and>
   (\<exists>st. dijkstra_loop (single_config 2 (0, 0) (1, 1)) [[False, False], [False, False]]
          (dijkstra_init (single_config 2 (0, 0) (1, 1)), False) = Some st \<and>
        fless (single_config 2 (0, 0) (1, 1)) (at2 (dist st) 1 1)
            (FLT_MAX (single_config 2 (0, 0) (1, 1))))"
proof -
  let ?C = "single_config 3 (0, 0) (2, 2)"
  let ?W = "[[False, True, False], [True, True, True], [False, True, False]]"
  let ?D = "single_config 2 (0, 0) (1, 1)"
  let ?V = "[[False, False], [False, False]]"
  let ?ds = "[\<lparr>coord = (0, 0), color = Cyan\<rparr>, \<lparr>coord = (1, 0), color = Cyan\<rparr>,
                 \<lparr>coord = (0, 1), color = Cyan\<rparr>, \<lparr>coord = (1, 0), color = Grey\<rparr>,
                 \<lparr>coord = (0, 1), color = Grey\<rparr>]"
  have e: "endX ?C = 2" "endY ?C = 2" "endX ?D = 1" "endY ?D = 1"
    by (simp_all add: single_config_def)
  have v: "valid_config ?C" by code_simp
  have a: "anchors_free ?C ?W" by code_simp
  have en: "enclosed_end ?C ?W" by code_simp
  have ns: "\<not> is_start ?C (endX ?C) (endY ?C)" by code_simp
  have d: "dijkstra_search ?C ?W = Some (Inr ([\<lparr>coord = (0, 0), color = Cyan\<rparr>], NotFound))"
    by code_simp
  have s: "astar_search ?C ?W = Some (Inr ([\<lparr>coord = (0, 0), color = Cyan\<rparr>], NotFound))"
    by code_simp
  have v2: "valid_config ?D" by code_simp
  have a2: "anchors_free ?D ?V" by code_simp
  have d2: "dijkstra_search ?D ?V = Some (Inr (?ds, Found [(0, 0), (1, 1)]))" by code_simp
  note T = C3_found_iff_finite[OF v a single_pq_contract single_wf,
      where ss = "[\<lparr>coord = (0, 0), color = Cyan\<rparr>]" and r = NotFound
        and ss' = "[\<lparr>coord = (0, 0), color = Cyan\<rparr>]" and r' = NotFound, unfolded e]
  note U = C3_found_iff_finite[OF v2 a2 single_pq_contract single_wf,
      where ss = ?ds and r = "Found [(0, 0), (1, 1)]", unfolded e]
  from T d have 1: "\<exists>st. dijkstra_loop ?C ?W (dijkstra_init ?C, False) = Some st \<and>
        \<not> fless ?C (at2 (dist st) 2 2) (FLT_MAX ?C)" by simp
  from T s have 2: "\<exists>st. astar_loop ?C ?W (astar_init ?C, False) = Some st \<and>
        \<not> fless ?C (at2 (g_cost st) 2 2) (FLT_MAX ?C)" by simp
  from U d2 have 3: "\<exists>st. dijkstra_loop ?D ?V (dijkstra_init ?D, False) = Some st \<and>
        fless ?D (at2 (dist st) 1 1) (FLT_MAX ?D)" by simp
  from v a single_pq_contract[of 3 "(0, 0)" "(2, 2)"] single_wf[of 3 "(0, 0)" "(2, 2)"]
    en ns d s 1 2 d2 3
  show ?thesis by blast
qed

subsection \<open>The invariant of the predecessor matrix\<close>

lemma directions_nonzero: "dir \<in> set directions \<Longrightarrow> dir \<noteq> (0, 0)"
  unfolding set_directions by (elim insertE emptyE; simp)

lemma cost_inv_upd:
  assumes fo: "float_order C" and ci: "cost_inv C W d prv"
    and oc: "open_cell C W d cx cy" and dir: "dir \<in> set directions"
    and ng: "in_grid C (cx + fst dir) (cy + snd dir)"
    and lt: "fless C nd (at2 d (cy + snd dir) (cx + fst dir))"
  shows "cost_inv C W (upd2 d (cy + snd dir) (cx + fst dir) nd)
           (upd2 prv (cy + snd dir) (cx + fst dir) (cx, cy))"
    and "fless C nd (FLT_MAX C)"
    and "\<And>px py. open_cell C W d px py \<Longrightarrow>
           open_cell C W (upd2 d (cy + snd dir) (cx + fst dir) nd) px py"
proof -
  let ?nx = "cx + fst dir" and ?ny = "cy + snd dir"
  let ?d' = "upd2 d ?ny ?nx nd" and ?p' = "upd2 prv ?ny ?nx (cx, cy)"
  from fo have tr: "\<And>a b c. fless C a b \<Longrightarrow> fless C b c \<Longrightarrow> fless C a c"
    unfolding float_order_def by blast
  from ci have sq: "square (GRID_SIZE C) d" "square (GRID_SIZE C) prv"
    and cells: "\<And>x y. in_grid C x y \<Longrightarrow> at2 d y x = FLT_MAX C \<or>
        (fless C (at2 d y x) (FLT_MAX C) \<and>
         (is_start C x y \<or> good_prev C W d (at2 prv y x) (x, y)))"
    unfolding cost_inv_def by blast+
  from ng have nn: "0 \<le> ?ny" "0 \<le> ?nx" by (simp_all add: in_grid_def)
  from ng sq have rd: "in_range2 d ?ny ?nx" and rp: "in_range2 prv ?ny ?nx"
    by (simp_all add: square_in_range2 in_grid_def)
  have same_d: "at2 ?d' ?ny ?nx = nd" using rd by (rule at2_upd2_same)
  have same_p: "at2 ?p' ?ny ?nx = (cx, cy)" using rp by (rule at2_upd2_same)
  have other_d: "at2 ?d' y x = at2 d y x" if "in_grid C x y" "(x, y) \<noteq> (?nx, ?ny)" for x y
  proof -
    from that have "0 \<le> y" "0 \<le> x" "?ny \<noteq> y \<or> ?nx \<noteq> x" by (auto simp: in_grid_def)
    from at2_upd2_other[OF nn this] show ?thesis .
  qed
  have other_p: "at2 ?p' y x = at2 prv y x" if "in_grid C x y" "(x, y) \<noteq> (?nx, ?ny)" for x y
  proof -
    from that have "0 \<le> y" "0 \<le> x" "?ny \<noteq> y \<or> ?nx \<noteq> x" by (auto simp: in_grid_def)
    from at2_upd2_other[OF nn this] show ?thesis .
  qed
  show fin: "fless C nd (FLT_MAX C)"
    using cells[OF ng] lt tr by metis
  have keep: "fless C (at2 ?d' y x) (FLT_MAX C)"
    if "in_grid C x y" "fless C (at2 d y x) (FLT_MAX C)" for x y
  proof (cases "(x, y) = (?nx, ?ny)")
    case True
    with same_d fin show ?thesis by simp
  next
    case False
    with other_d[OF that(1)] that(2) show ?thesis by simp
  qed
  show "open_cell C W ?d' px py" if "open_cell C W d px py" for px py
    using that keep[of px py] by (simp add: open_cell_def)
  have gp: "good_prev C W ?d' p c" if "good_prev C W d p c" for p c
    using that keep[of "fst p" "snd p"] by (simp add: good_prev_def)
  from directions_nonzero[OF dir] have cne: "(cx, cy) \<noteq> (?nx, ?ny)"
    by (cases dir) auto
  from oc have ocg: "in_grid C cx cy" "\<not> at2 W cy cx" "fless C (at2 d cy cx) (FLT_MAX C)"
    by (simp_all add: open_cell_def)
  have gn: "good_prev C W ?d' (cx, cy) (?nx, ?ny)"
    using ocg keep[OF ocg(1) ocg(3)] dir by (simp add: good_prev_def)
  have "at2 ?d' y x = FLT_MAX C \<or>
        (fless C (at2 ?d' y x) (FLT_MAX C) \<and>
         (is_start C x y \<or> good_prev C W ?d' (at2 ?p' y x) (x, y)))"
    if g: "in_grid C x y" for x y
  proof (cases "(x, y) = (?nx, ?ny)")
    case True
    then have "x = ?nx" "y = ?ny" by simp_all
    with same_d same_p fin gn show ?thesis by simp
  next
    case False
    note od = other_d[OF g False] and op = other_p[OF g False]
    from cells[OF g] show ?thesis
    proof
      assume "at2 d y x = FLT_MAX C"
      with od show ?thesis by simp
    next
      assume a: "fless C (at2 d y x) (FLT_MAX C) \<and>
         (is_start C x y \<or> good_prev C W d (at2 prv y x) (x, y))"
      then have "fless C (at2 ?d' y x) (FLT_MAX C)" using od by simp
      moreover from a have "is_start C x y \<or> good_prev C W ?d' (at2 ?p' y x) (x, y)"
        using gp[of "at2 prv y x" "(x, y)"] op by auto
      ultimately show ?thesis by blast
    qed
  qed
  then show "cost_inv C W ?d' ?p'"
    using sq by (simp add: cost_inv_def square_upd2)
qed

end
